theory Spec2Isabelle
  imports Complex_Main
begin

section \<open>The DocJays phase orchestrator (scripts/run-docjays-phases.py)\<close>

text \<open>
  The script drives seven external commands ("phases") one after the other, keeps one
  \<open>PhaseResult\<close> per phase in a progress file, and writes a report. This theory embeds the
  data model and every operation of class \<open>DocJaysOrchestrator\<close> and of \<open>main\<close>.

  Conventions of the embedding:
  \<^item> Python exceptions are values of type \<open>exn\<close>; a function that may raise returns
    \<open>exn + 'a\<close> or \<open>exn option\<close> beside the state it leaves behind.
  \<^item> The outside of the process is split in two. The record \<open>env\<close> holds what the script
    only reads (the clock, the library's renderings of an instant, what the external
    command does, whether the marker directory exists). The record \<open>world\<close> holds what it
    changes (the number of clock readings taken, the progress file, and the trace of
    effects).
  \<^item> A \<open>str\<close> is a list of code points below 256, a platform with POSIX paths and a
    64-bit build are taken.
  \<^item> Writing a file and printing to the console are taken to succeed, the operator
    interrupts only while a command runs, and memory runs short only for the list of the
    plan. Whether the output directory can be created is a field of \<open>env\<close>.
  \<^item> Console output is not kept. The \<open>print\<close> calls that format the duration of a
    completed record with \<open>:.2f\<close>, and the one that prints the total, raise on a duration
    that a float format does not take; this is kept.
  \<^item> A \<open>datetime\<close> is an instant in microseconds. \<open>datetime.isoformat\<close>,
    \<open>datetime.strftime\<close> and \<open>Path.resolve\<close> are library functions and are fields of
    \<open>env\<close>. A float is an exact rational where Python has the nearest double; NaN and
    the infinities are left out.
  \<^item> The fields of a \<open>PhaseResult\<close> hold Python objects: what \<open>execute_phase\<close> puts
    there (None, a \<open>str\<close>, an \<open>int\<close>, a \<open>float\<close>) or whatever value \<open>load_progress\<close>
    found in the file, which it does not check. Both are values of type \<open>json\<close>.
\<close>

subsection \<open>Strings and integers of the Python runtime\<close>

definition digit_char :: "nat \<Rightarrow> char" where
  "digit_char d = ''0123456789'' ! d"

fun nat_digits :: "nat \<Rightarrow> string" where
  "nat_digits n = (if n < 10 then [digit_char n] else nat_digits (n div 10) @ [digit_char (n mod 10)])"

declare nat_digits.simps [simp del]

text \<open>\<open>str(n)\<close>, as every f-string renders an \<open>int\<close>.\<close>

definition str_int :: "int \<Rightarrow> string" where
  "str_int i = (if i < 0 then CHR ''-'' # nat_digits (nat (- i)) else nat_digits (nat i))"

definition is_digit :: "char \<Rightarrow> bool" where
  "is_digit c = (48 \<le> (of_char c :: nat) \<and> (of_char c :: nat) \<le> 57)"

text \<open>
  The whitespace \<open>int(...)\<close> skips around a number: tab to carriage return and the space,
  and the two spaces beyond ASCII below 256 (U+0085, U+00A0), which it first turns into
  a space. U+001C to U+001F are not among them.
\<close>

definition is_space :: "char \<Rightarrow> bool" where
  "is_space c =
     (let k = (of_char c :: nat) in (9 \<le> k \<and> k \<le> 13) \<or> k = 32 \<or> k = 133 \<or> k = 160)"

text \<open>
  The digits of an \<open>int(...)\<close> literal: decimal digits, a single underscore allowed between
  two digits. The flag says whether the previous character was a digit.
\<close>

fun digits_value :: "bool \<Rightarrow> nat \<Rightarrow> string \<Rightarrow> nat option" where
  "digits_value prev acc [] = (if prev then Some acc else None)"
| "digits_value prev acc (c # cs) =
     (if is_digit c then digits_value True (acc * 10 + ((of_char c :: nat) - 48)) cs
      else if c = CHR ''_'' \<and> prev then digits_value False acc cs
      else None)"

definition strip :: "string \<Rightarrow> string" where
  "strip s = rev (dropWhile is_space (rev (dropWhile is_space s)))"

text \<open>
  \<open>int(s)\<close>: surrounding whitespace, an optional sign, digits. \<open>None\<close> is ValueError.
  An interpreter with a limit on the digits of a number (\<open>sys.get_int_max_str_digits()\<close>,
  0 for none) refuses a longer one; it only counts when there are more than 640.
\<close>

definition literal_value :: "string \<Rightarrow> int option" where
  "literal_value s =
     (case strip s of
        [] \<Rightarrow> None
      | c # cs \<Rightarrow>
          if c = CHR ''-'' then map_option (\<lambda>n. - int n) (digits_value False 0 cs)
          else if c = CHR ''+'' then map_option int (digits_value False 0 cs)
          else map_option int (digits_value False 0 (c # cs)))"

definition py_int :: "nat \<Rightarrow> string \<Rightarrow> int option" where
  "py_int max_str_digits s =
     (if 0 < max_str_digits \<and> max max_str_digits 640 < length (filter is_digit s) then None
      else literal_value s)"

text \<open>\<open>s.split(sep)\<close> for a one-character separator.\<close>

fun split_on :: "char \<Rightarrow> string \<Rightarrow> string \<Rightarrow> string list" where
  "split_on sep cur [] = [rev cur]"
| "split_on sep cur (c # cs) =
     (if c = sep then rev cur # split_on sep [] cs else split_on sep (c # cur) cs)"

definition py_split :: "char \<Rightarrow> string \<Rightarrow> string list" where
  "py_split sep s = split_on sep [] s"

text \<open>\<open>s.lower()\<close>: the capital letters below 256 are A to Z and U+00C0 to U+00DE without U+00D7.\<close>

definition lower_char :: "char \<Rightarrow> char" where
  "lower_char c =
     (let k = (of_char c :: nat)
      in if (65 \<le> k \<and> k \<le> 90) \<or> (192 \<le> k \<and> k \<le> 222 \<and> k \<noteq> 215) then char_of (k + 32)
         else c)"

definition lower :: "string \<Rightarrow> string" where
  "lower s = map lower_char s"

subsection \<open>Exceptions\<close>

text \<open>
  \<open>KeyboardInterrupt\<close> is the one exception of the script that is not an \<open>Exception\<close>;
  the handlers of \<open>execute_phase\<close> and \<open>main\<close> tell it apart.
\<close>

datatype exn =
    KeyboardInterrupt
  | ValueError
  | TypeError
  | KeyError
  | AttributeError
  | JSONDecodeError
  | OverflowError
  | MemoryError

subsection \<open>Python values\<close>

text \<open>
  What \<open>json.load\<close> returns and \<open>json.dump\<close> takes: None, a bool, an int, a float, a
  \<open>str\<close>, a list, a dict with \<open>str\<close> keys. The text of a file is the library's business,
  the script sees these values. An object keeps its members in order.
\<close>

datatype json =
    JNull
  | JBool bool
  | JInt int
  | JFloat rat
  | JStr string
  | JArr "json list"
  | JObj "(string \<times> json) list"

text \<open>\<open>v == n\<close> for an int \<open>n\<close>: numbers compare by value, \<open>True\<close> is 1 and \<open>False\<close> is 0.\<close>

definition eq_int :: "json \<Rightarrow> int \<Rightarrow> bool" where
  "eq_int v n =
     (case v of
        JInt i \<Rightarrow> i = n
      | JFloat x \<Rightarrow> x = of_int n
      | JBool b \<Rightarrow> (if b then 1 else 0) = n
      | _ \<Rightarrow> False)"

text \<open>Python's truth of a value.\<close>

definition truthy :: "json \<Rightarrow> bool" where
  "truthy v =
     (case v of
        JNull \<Rightarrow> False
      | JBool b \<Rightarrow> b
      | JInt i \<Rightarrow> i \<noteq> 0
      | JFloat x \<Rightarrow> x \<noteq> 0
      | JStr s \<Rightarrow> s \<noteq> []
      | JArr xs \<Rightarrow> xs \<noteq> []
      | JObj kvs \<Rightarrow> kvs \<noteq> [])"

text \<open>
  An int becomes a float when it rounds to a double: below
  \<open>2\<^sup>1\<^sup>0\<^sup>2\<^sup>4 - 2\<^sup>9\<^sup>7\<^sup>0\<close> in absolute value. Otherwise the conversion raises OverflowError.
\<close>

definition to_float_ok :: "int \<Rightarrow> bool" where
  "to_float_ok i = (\<bar>i\<bar> < 2 ^ 1024 - 2 ^ 970)"

text \<open>
  \<open>f"{v:.2f}"\<close>: the exception it raises, if any. A number is formatted (a bool as an
  int), a \<open>str\<close> does not know the format code, None, a list and a dict take no format.
\<close>

definition format_2f :: "json \<Rightarrow> exn option" where
  "format_2f v =
     (case v of
        JInt i \<Rightarrow> if to_float_ok i then None else Some OverflowError
      | JFloat x \<Rightarrow> None
      | JBool b \<Rightarrow> None
      | JStr s \<Rightarrow> Some ValueError
      | _ \<Rightarrow> Some TypeError)"

definition is_float :: "json \<Rightarrow> bool" where
  "is_float v = (case v of JFloat x \<Rightarrow> True | _ \<Rightarrow> False)"

definition int_of :: "json \<Rightarrow> int" where
  "int_of v = (case v of JInt i \<Rightarrow> i | JBool b \<Rightarrow> (if b then 1 else 0) | _ \<Rightarrow> 0)"

text \<open>
  \<open>sum(d for d in ds if d)\<close> over numbers, followed by \<open>f"{total:.2f}"\<close> and
  \<open>total/60\<close>: whether that raises OverflowError. The sum is an exact int until the first
  float comes; that int is converted when the float is added, or when the total is
  formatted.
\<close>

definition total_overflows :: "json list \<Rightarrow> bool" where
  "total_overflows ds =
     (\<not> to_float_ok (sum_list (map int_of (takeWhile (\<lambda>d. \<not> is_float d) (filter truthy ds)))))"

text \<open>The first exception of a sequence of steps.\<close>

fun first_raised :: "exn option list \<Rightarrow> exn option" where
  "first_raised [] = None"
| "first_raised (Some x # xs) = Some x"
| "first_raised (None # xs) = first_raised xs"

subsection \<open>Data model\<close>

datatype PhaseStatus = PENDING | IN_PROGRESS | COMPLETED | FAILED | SKIPPED

text \<open>The enum's \<open>.value\<close>, and the lookup by value \<open>PhaseStatus(v)\<close> (None is ValueError).\<close>

fun status_value :: "PhaseStatus \<Rightarrow> string" where
  "status_value PENDING = ''pending''"
| "status_value IN_PROGRESS = ''in_progress''"
| "status_value COMPLETED = ''completed''"
| "status_value FAILED = ''failed''"
| "status_value SKIPPED = ''skipped''"

definition PhaseStatus_of_value :: "string \<Rightarrow> PhaseStatus option" where
  "PhaseStatus_of_value s =
     (if s = ''pending'' then Some PENDING
      else if s = ''in_progress'' then Some IN_PROGRESS
      else if s = ''completed'' then Some COMPLETED
      else if s = ''failed'' then Some FAILED
      else if s = ''skipped'' then Some SKIPPED
      else None)"

text \<open>\<open>str(status)\<close>, which \<open>json.dump(..., default=str)\<close> writes into the report.\<close>

fun status_str :: "PhaseStatus \<Rightarrow> string" where
  "status_str PENDING = ''PhaseStatus.PENDING''"
| "status_str IN_PROGRESS = ''PhaseStatus.IN_PROGRESS''"
| "status_str COMPLETED = ''PhaseStatus.COMPLETED''"
| "status_str FAILED = ''PhaseStatus.FAILED''"
| "status_str SKIPPED = ''PhaseStatus.SKIPPED''"

type_synonym datetime = int

text \<open>
  The dataclass. Its annotations are not enforced: every field but the status holds the
  object it was given.
\<close>

record PhaseResult =
  phase_number :: json
  phase_name :: json
  status :: PhaseStatus
  start_time :: json
  end_time :: json
  duration_seconds :: json
  error_message :: json
  command_used :: json
  output_file :: json

record phase_info =
  name :: string
  command :: string
  duration_estimate :: string
  description :: string

definition PHASES :: "(int \<times> phase_info) list" where
  "PHASES =
    [(1, \<lparr>name = ''Database Foundation'', command = ''docjays-phase1'',
          duration_estimate = ''1-2 weeks'',
          description = ''Enhanced schema with taxonomy, lifecycle tracking, usage metadata''\<rparr>),
     (2, \<lparr>name = ''Lifecycle Management APIs'', command = ''docjays-phase2'',
          duration_estimate = ''1-2 weeks'',
          description = ''Grounding API with metadata, approval workflow, lifecycle operations''\<rparr>),
     (3, \<lparr>name = ''Compliance Checking'', command = ''docjays-phase3'',
          duration_estimate = ''1-2 weeks'',
          description = ''Real-time constraint enforcement, LLM-based compliance analysis''\<rparr>),
     (4, \<lparr>name = ''Decision Extraction'', command = ''docjays-phase4'',
          duration_estimate = ''1-2 weeks'',
          description = ''Auto-extract decisions from PRs, commits, documents''\<rparr>),
     (5, \<lparr>name = ''UI Enhancement'', command = ''docjays-phase5'',
          duration_estimate = ''1-2 weeks'',
          description = ''Governance dashboard, grounding modal, compliance UI''\<rparr>),
     (6, \<lparr>name = ''MCP & CLI Tools'', command = ''docjays-phase6'',
          duration_estimate = ''1-2 weeks'',
          description = ''Enhanced MCP tools, CLI commands, workflow integration''\<rparr>),
     (7, \<lparr>name = ''Testing & Deployment'', command = ''docjays-phase7'',
          duration_estimate = ''1-2 weeks'',
          description = ''Comprehensive testing, gradual rollout, monitoring''\<rparr>)]"

subsection \<open>The progress file\<close>

text \<open>
  The progress file: missing; present, but reading it as JSON raises; or a JSON document.
\<close>

datatype stored = Absent | Garbled | Document json

text \<open>
  The dict \<open>json.load\<close> builds from an object keeps, of members with the same name, the
  last one.
\<close>

definition lookup_member :: "(string \<times> json) list \<Rightarrow> string \<Rightarrow> json option" where
  "lookup_member kvs k = map_of (rev kvs) k"

text \<open>
  \<open>r[k]\<close> and \<open>r.get(k)\<close> on what should be a dict. Subscripting a list, a string or a
  number with a string raises TypeError, \<open>.get\<close> on them AttributeError.
\<close>

definition subscript :: "json \<Rightarrow> string \<Rightarrow> exn + json" where
  "subscript j k =
     (case j of
        JObj kvs \<Rightarrow> (case lookup_member kvs k of None \<Rightarrow> Inl KeyError | Some v \<Rightarrow> Inr v)
      | _ \<Rightarrow> Inl TypeError)"

definition get :: "json \<Rightarrow> string \<Rightarrow> exn + json" where
  "get j k =
     (case j of
        JObj kvs \<Rightarrow> (case lookup_member kvs k of None \<Rightarrow> Inr JNull | Some v \<Rightarrow> Inr v)
      | _ \<Rightarrow> Inl AttributeError)"

text \<open>\<open>PhaseStatus(v)\<close> on a value of the document.\<close>

definition as_status :: "json \<Rightarrow> exn + PhaseStatus" where
  "as_status j =
     (case j of
        JStr s \<Rightarrow> (case PhaseStatus_of_value s of None \<Rightarrow> Inl ValueError | Some st \<Rightarrow> Inr st)
      | _ \<Rightarrow> Inl ValueError)"

definition bind :: "exn + 'a \<Rightarrow> ('a \<Rightarrow> exn + 'b) \<Rightarrow> exn + 'b" where
  "bind m f = (case m of Inl e \<Rightarrow> Inl e | Inr x \<Rightarrow> f x)"

text \<open>
  One \<open>PhaseResult(...)\<close> of the comprehension in \<open>load_progress\<close>, arguments in order.
  Nothing but the status is looked at.
\<close>

definition result_of_json :: "json \<Rightarrow> exn + PhaseResult" where
  "result_of_json r =
     bind (subscript r ''phase_number'') (\<lambda>pn.
     bind (subscript r ''phase_name'') (\<lambda>pname.
     bind (bind (subscript r ''status'') as_status) (\<lambda>st.
     bind (get r ''start_time'') (\<lambda>t0.
     bind (get r ''end_time'') (\<lambda>t1.
     bind (get r ''duration_seconds'') (\<lambda>d.
     bind (get r ''error_message'') (\<lambda>em.
     bind (get r ''command_used'') (\<lambda>cu.
     bind (get r ''output_file'') (\<lambda>ofile.
     Inr \<lparr>phase_number = pn, phase_name = pname, status = st, start_time = t0,
          end_time = t1, duration_seconds = d, error_message = em, command_used = cu,
          output_file = ofile\<rparr>)))))))))"

fun results_of_json :: "json list \<Rightarrow> exn + PhaseResult list" where
  "results_of_json [] = Inr []"
| "results_of_json (r # rs) =
     bind (result_of_json r) (\<lambda>x. bind (results_of_json rs) (\<lambda>xs. Inr (x # xs)))"

text \<open>
  \<open>load_progress\<close>: the results it leaves in \<open>self.results\<close> (\<open>__init__\<close> has set them to
  \<open>[]\<close>), or the exception it raises. The comprehension iterates over
  \<open>data.get('results', [])\<close>: a list gives its elements; a string gives its characters
  and an object its member names, and subscripting one of those raises TypeError, so
  only the empty string and the empty object pass, with no result; any other value is
  not iterable.
\<close>

definition load_progress :: "stored \<Rightarrow> exn + PhaseResult list" where
  "load_progress f =
     (case f of
        Absent \<Rightarrow> Inr []
      | Garbled \<Rightarrow> Inl JSONDecodeError
      | Document data \<Rightarrow>
          (case data of
             JObj kvs \<Rightarrow>
               (case lookup_member kvs ''results'' of
                  None \<Rightarrow> Inr []
                | Some (JArr rs) \<Rightarrow> results_of_json rs
                | Some (JStr s) \<Rightarrow> if s = [] then Inr [] else Inl TypeError
                | Some (JObj ms) \<Rightarrow> if ms = [] then Inr [] else Inl TypeError
                | Some _ \<Rightarrow> Inl TypeError)
           | _ \<Rightarrow> Inl AttributeError))"

text \<open>One dict of the comprehension in \<open>save_progress\<close>.\<close>

definition json_of_result :: "PhaseResult \<Rightarrow> json" where
  "json_of_result r =
     JObj [(''phase_number'', phase_number r),
           (''phase_name'', phase_name r),
           (''status'', JStr (status_value (status r))),
           (''start_time'', start_time r),
           (''end_time'', end_time r),
           (''duration_seconds'', duration_seconds r),
           (''error_message'', error_message r),
           (''command_used'', command_used r),
           (''output_file'', output_file r)]"

text \<open>The document \<open>save_progress\<close> dumps; \<open>now\<close> is the text of \<open>datetime.now().isoformat()\<close>.\<close>

definition progress_document :: "string \<Rightarrow> PhaseResult list \<Rightarrow> json" where
  "progress_document now rs =
     JObj [(''last_updated'', JStr now), (''results'', JArr (map json_of_result rs))]"

subsection \<open>The outside of the process\<close>

text \<open>
  What one \<open>subprocess.Popen(command, shell=True, ...)\<close> with the reading of its pipes and
  \<open>process.wait()\<close> does: the command runs and exits with a code; or something in the
  \<open>try\<close> block raises an \<open>Exception\<close> with the given text (the launch fails); or the
  operator interrupts while the script reads the command's output.
\<close>

datatype proc_outcome = Exited int | LaunchFailed string | Interrupted

text \<open>The trace of what the script does to its surroundings, oldest first.\<close>

datatype event =
    Popen string
  | LogWritten string
  | ProgressSaved json
  | ReportWritten string json

text \<open>
  What the script only reads. \<open>int_max_str_digits\<close> is the interpreter's limit on
  the digits of a number (0: none); \<open>spare_memory\<close> is how many list elements the process
  can hold beyond a list as long as the catalog.
\<close>

record env =
  clock :: "nat \<Rightarrow> datetime"
  isoformat :: "datetime \<Rightarrow> string"
  strftime :: "datetime \<Rightarrow> string"
  resolve :: "string \<Rightarrow> string"
  popen :: "string \<Rightarrow> proc_outcome"
  has_marker :: bool
  can_mkdir :: bool
  int_max_str_digits :: nat
  spare_memory :: nat

record world =
  ticks :: nat
  progress_file :: stored
  events :: "event list"

text \<open>\<open>datetime.now()\<close>: the next reading of the clock.\<close>

definition now :: "env \<Rightarrow> world \<Rightarrow> datetime \<times> world" where
  "now E w = (clock E (ticks w), w\<lparr>ticks := Suc (ticks w)\<rparr>)"

definition emit :: "event \<Rightarrow> world \<Rightarrow> world" where
  "emit e w = w\<lparr>events := events w @ [e]\<rparr>"

text \<open>\<open>(end - start).total_seconds()\<close>.\<close>

definition total_seconds :: "datetime \<Rightarrow> datetime \<Rightarrow> rat" where
  "total_seconds t0 t1 = of_int (t1 - t0) / 1000000"

text \<open>\<open>sys.maxsize\<close>, and the longest list the process can build.\<close>

definition maxsize :: nat where
  "maxsize = 2 ^ 63 - 1"

definition list_capacity :: "env \<Rightarrow> nat" where
  "list_capacity E = length PHASES + spare_memory E"

text \<open>
  \<open>list(range(start, end + 1))\<close>: a range longer than \<open>sys.maxsize\<close> has no length
  (OverflowError), one longer than memory holds is not built (MemoryError).
\<close>

definition list_range :: "env \<Rightarrow> int \<Rightarrow> int \<Rightarrow> exn + int list" where
  "list_range E start stop =
     (let n = nat (stop + 1 - start)
      in if maxsize < n then Inl OverflowError
         else if list_capacity E < n then Inl MemoryError
         else Inr [start..stop])"

text \<open>\<open>base / name\<close> on POSIX paths, and its text.\<close>

definition path_join :: "string \<Rightarrow> string \<Rightarrow> string" where
  "path_join base leaf =
     (if base = [] then leaf
      else if last base = CHR ''/'' then base @ leaf
      else base @ ''/'' @ leaf)"

subsection \<open>The orchestrator\<close>

text \<open>\<open>project_root\<close> is the resolved path \<open>main\<close> hands to the constructor.\<close>

record Orchestrator =
  project_root :: string
  dry_run :: bool
  results :: "PhaseResult list"

definition output_dir :: "Orchestrator \<Rightarrow> string" where
  "output_dir orch = path_join (path_join (project_root orch) ''scripts'') ''outputs''"

text \<open>\<open>save_progress\<close>: one clock reading, then the whole collection is written.\<close>

definition save_progress :: "env \<Rightarrow> Orchestrator \<Rightarrow> world \<Rightarrow> world" where
  "save_progress E orch w =
     (let (t, w1) = now E w;
          data = progress_document (isoformat E t) (results orch)
      in emit (ProgressSaved data) (w1\<lparr>progress_file := Document data\<rparr>))"

text \<open>The result \<open>execute_phase\<close> starts from, and the one its dry-run branch returns.\<close>

definition fresh_result :: "int \<Rightarrow> phase_info \<Rightarrow> PhaseResult" where
  "fresh_result n info =
     \<lparr>phase_number = JInt n, phase_name = JStr (name info), status = IN_PROGRESS,
      start_time = JNull, end_time = JNull, duration_seconds = JNull, error_message = JNull,
      command_used = JNull, output_file = JNull\<rparr>"

definition dry_result :: "int \<Rightarrow> phase_info \<Rightarrow> PhaseResult" where
  "dry_result n info =
     (fresh_result n info)\<lparr>status := SKIPPED, command_used := JStr (''/'' @ command info)\<rparr>"

text \<open>
  \<open>execute_phase\<close>. The clock is read for the name of the log, for the start, and for the
  end (after \<open>process.wait()\<close>, or in the handler). The \<open>try\<close> block either runs to its
  end, or raises an \<open>Exception\<close>, which the handler turns into a failed result, or is
  left by \<open>KeyboardInterrupt\<close>, which the handler does not catch.
\<close>

definition execute_phase ::
  "env \<Rightarrow> Orchestrator \<Rightarrow> int \<Rightarrow> world \<Rightarrow> (exn + PhaseResult) \<times> world" where
  "execute_phase E orch n w =
     (case map_of PHASES n of
        None \<Rightarrow> (Inl ValueError, w)
      | Some info \<Rightarrow>
          if dry_run orch then (Inr (dry_result n info), w)
          else
            (let (ts, w1) = now E w;
                 ofile = path_join (output_dir orch)
                           (''phase'' @ str_int n @ ''_'' @ strftime E ts @ ''.log'');
                 cmd = ''claude /'' @ command info;
                 (t0, w2) = now E w1;
                 result = (fresh_result n info)
                            \<lparr>command_used := JStr cmd, start_time := JStr (isoformat E t0)\<rparr>;
                 w3 = emit (Popen cmd) w2
             in case popen E cmd of
                  Exited return_code \<Rightarrow>
                    (let w4 = emit (LogWritten ofile) w3;
                         (t1, w5) = now E w4;
                         result = result\<lparr>end_time := JStr (isoformat E t1),
                                         duration_seconds := JFloat (total_seconds t0 t1),
                                         output_file := JStr ofile\<rparr>
                     in if return_code = 0 then (Inr (result\<lparr>status := COMPLETED\<rparr>), w5)
                        else (Inr (result\<lparr>status := FAILED,
                                 error_message :=
                                   JStr (''Command exited with code '' @ str_int return_code)\<rparr>), w5))
                | LaunchFailed e \<Rightarrow>
                    (let (t1, w4) = now E w3
                     in (Inr (result\<lparr>status := FAILED, error_message := JStr e,
                                end_time := JStr (isoformat E t1)\<rparr>), w4))
                | Interrupted \<Rightarrow> (Inl KeyboardInterrupt, emit (LogWritten ofile) w3)))"

text \<open>
  The plan of \<open>run_phases\<close>: \<open>"all"\<close>, \<open>"N-M"\<close> or \<open>"N"\<close>. A text that does not read
  as one or two numbers raises ValueError.
\<close>

definition phases_to_run :: "env \<Rightarrow> string \<Rightarrow> exn + int list" where
  "phases_to_run E phase_range =
     (if lower phase_range = ''all'' then Inr (map fst PHASES)
      else if CHR ''-'' \<in> set phase_range then
        (case map (py_int (int_max_str_digits E)) (py_split CHR ''-'' phase_range) of
           [Some start, Some end] \<Rightarrow> list_range E start end
         | _ \<Rightarrow> Inl ValueError)
      else (case py_int (int_max_str_digits E) phase_range of
              None \<Rightarrow> Inl ValueError
            | Some n \<Rightarrow> Inr [n]))"

text \<open>\<open>next((r for r in self.results if r.phase_number == phase_num), None)\<close>.\<close>

definition existing :: "int \<Rightarrow> PhaseResult list \<Rightarrow> PhaseResult option" where
  "existing phase_num rs = find (\<lambda>r. eq_int (phase_number r) phase_num) rs"

text \<open>\<open>existing and existing.status == PhaseStatus.COMPLETED\<close>.\<close>

definition already_completed :: "int \<Rightarrow> PhaseResult list \<Rightarrow> bool" where
  "already_completed phase_num rs =
     (case existing phase_num rs of None \<Rightarrow> False | Some e \<Rightarrow> status e = COMPLETED)"

text \<open>
  The update of \<open>self.results\<close> after a phase has run: \<open>remove\<close> takes out the first
  record equal to the one found, which is the one found, and \<open>append\<close> puts the new one
  last.
\<close>

definition update_results :: "PhaseResult option \<Rightarrow> PhaseResult \<Rightarrow> PhaseResult list \<Rightarrow> PhaseResult list" where
  "update_results ex result rs =
     (case ex of None \<Rightarrow> rs | Some e \<Rightarrow> remove1 e rs) @ [result]"

text \<open>
  The \<open>for\<close> loop of \<open>run_phases\<close>. It returns the exception that left it, if any, and the
  orchestrator and the world as they are then. The message for a phase that is already
  completed formats its duration. The pause between phases only lets time pass.
\<close>

fun phase_loop :: "env \<Rightarrow> int list \<Rightarrow> Orchestrator \<Rightarrow> world \<Rightarrow> exn option \<times> Orchestrator \<times> world" where
  "phase_loop E [] orch w = (None, orch, w)"
| "phase_loop E (phase_num # rest) orch w =
     (if map_of PHASES phase_num = None then phase_loop E rest orch w
      else
        (let ex = existing phase_num (results orch)
         in if already_completed phase_num (results orch) then
              (case format_2f (duration_seconds (the ex)) of
                 Some x \<Rightarrow> (Some x, orch, w)
               | None \<Rightarrow> phase_loop E rest orch w)
            else
              (case execute_phase E orch phase_num w of
                 (Inl x, w1) \<Rightarrow> (Some x, orch, w1)
               | (Inr result, w1) \<Rightarrow>
                   (let orch1 = orch\<lparr>results := update_results ex result (results orch)\<rparr>;
                        w2 = save_progress E orch1 w1
                    in if status result = FAILED then (None, orch1, w2)
                       else phase_loop E rest orch1 w2))))"

definition count_status :: "PhaseStatus \<Rightarrow> PhaseResult list \<Rightarrow> int" where
  "count_status st rs = int (length (filter (\<lambda>r. status r = st) rs))"

text \<open>\<open>asdict(r)\<close> as \<open>json.dump(..., default=str)\<close> writes it.\<close>

definition asdict :: "PhaseResult \<Rightarrow> json" where
  "asdict r =
     JObj [(''phase_number'', phase_number r),
           (''phase_name'', phase_name r),
           (''status'', JStr (status_str (status r))),
           (''start_time'', start_time r),
           (''end_time'', end_time r),
           (''duration_seconds'', duration_seconds r),
           (''error_message'', error_message r),
           (''command_used'', command_used r),
           (''output_file'', output_file r)]"

text \<open>
  What the printing in \<open>generate_report\<close> raises, if anything: each completed record's
  duration is formatted, in order, and then, when there is a completed record, their
  total.
\<close>

definition report_raises :: "PhaseResult list \<Rightarrow> exn option" where
  "report_raises rs =
     (let ds = map duration_seconds (filter (\<lambda>r. status r = COMPLETED) rs)
      in case first_raised (map format_2f ds) of
           Some x \<Rightarrow> Some x
         | None \<Rightarrow> if ds \<noteq> [] \<and> total_overflows ds then Some OverflowError else None)"

text \<open>\<open>generate_report\<close>. The printing comes before the report file is opened.\<close>

definition generate_report :: "env \<Rightarrow> Orchestrator \<Rightarrow> world \<Rightarrow> exn option \<times> world" where
  "generate_report E orch w =
     (case report_raises (results orch) of
        Some x \<Rightarrow> (Some x, w)
      | None \<Rightarrow>
        (let (tn, w1) = now E w;
             report_file = path_join (output_dir orch) (''report_'' @ strftime E tn @ ''.json'');
             (tg, w2) = now E w1;
             doc = JObj [(''generated_at'', JStr (isoformat E tg)),
                         (''summary'',
                            JObj [(''total'', JInt (int (length (results orch)))),
                                  (''completed'', JInt (count_status COMPLETED (results orch))),
                                  (''failed'', JInt (count_status FAILED (results orch))),
                                  (''skipped'', JInt (count_status SKIPPED (results orch)))]),
                         (''results'', JArr (map asdict (results orch)))]
         in (None, emit (ReportWritten report_file doc) w2)))"

definition run_phases :: "env \<Rightarrow> string \<Rightarrow> Orchestrator \<Rightarrow> world \<Rightarrow> exn option \<times> Orchestrator \<times> world" where
  "run_phases E phase_range orch w =
     (case phases_to_run E phase_range of
        Inl x \<Rightarrow> (Some x, orch, w)
      | Inr plan \<Rightarrow>
          (case phase_loop E plan orch w of
             (Some x, orch1, w1) \<Rightarrow> (Some x, orch1, w1)
           | (None, orch1, w1) \<Rightarrow>
               (case generate_report E orch1 w1 of (x, w2) \<Rightarrow> (x, orch1, w2))))"

text \<open>\<open>max(self.PHASES.keys())\<close>; the catalog is not empty.\<close>

definition max_phase :: int where
  "max_phase = Max (set (map fst PHASES))"

text \<open>\<open>resume_from\<close> builds the text of a range and hands it to \<open>run_phases\<close>.\<close>

definition resume_selection :: "int \<Rightarrow> string" where
  "resume_selection k = str_int k @ ''-'' @ str_int max_phase"

definition resume_from :: "env \<Rightarrow> int \<Rightarrow> Orchestrator \<Rightarrow> world \<Rightarrow> exn option \<times> Orchestrator \<times> world" where
  "resume_from E k orch w = run_phases E (resume_selection k) orch w"

subsection \<open>The command line\<close>

text \<open>
  The arguments as \<open>argparse\<close> leaves them. \<open>--resume-from\<close> has \<open>type=int\<close>, so a text that
  is no integer is rejected by the parser itself.
\<close>

record args =
  arg_phase :: "string option"
  arg_resume_from :: "int option"
  arg_dry_run :: bool
  arg_project_root :: string

text \<open>Python's truth of \<open>args.phase\<close> and of \<open>args.resume_from\<close>.\<close>

definition truthy_str :: "string option \<Rightarrow> bool" where
  "truthy_str x = (case x of None \<Rightarrow> False | Some s \<Rightarrow> s \<noteq> [])"

definition truthy_int :: "int option \<Rightarrow> bool" where
  "truthy_int x = (case x of None \<Rightarrow> False | Some i \<Rightarrow> i \<noteq> 0)"

text \<open>
  \<open>main\<close>: the exit code of the process and the world it leaves. \<open>parser.error\<close> exits
  with 2. The constructor runs outside the \<open>try\<close>, so an exception of its \<open>mkdir\<close> or of
  \<open>load_progress\<close> ends the process with a traceback and code 1. Falling off the end of
  \<open>main\<close> is code 0.
\<close>

definition main :: "env \<Rightarrow> args \<Rightarrow> world \<Rightarrow> int \<times> world" where
  "main E a w =
     (if \<not> truthy_str (arg_phase a) \<and> \<not> truthy_int (arg_resume_from a) then (2, w)
      else if \<not> has_marker E then (1, w)
      else if \<not> can_mkdir E then (1, w)
      else
        (case load_progress (progress_file w) of
           Inl x \<Rightarrow> (1, w)
         | Inr rs \<Rightarrow>
             (let orchestrator =
                    \<lparr>project_root = resolve E (arg_project_root a), dry_run = arg_dry_run a,
                     results = rs\<rparr>
              in case (if truthy_int (arg_resume_from a)
                       then resume_from E (the (arg_resume_from a)) orchestrator w
                       else run_phases E (the (arg_phase a)) orchestrator w) of
                   (None, orch1, w1) \<Rightarrow> (0, w1)
                 | (Some KeyboardInterrupt, orch1, w1) \<Rightarrow>
                     (1, snd (generate_report E orch1 (save_progress E orch1 w1)))
                 | (Some x, orch1, w1) \<Rightarrow> (1, save_progress E orch1 w1))))"

text \<open>
  The text that reaches \<open>run_phases\<close>: the range \<open>resume_from\<close> builds, or \<open>args.phase\<close>.
\<close>

definition selection :: "args \<Rightarrow> string" where
  "selection a =
     (if truthy_int (arg_resume_from a) then resume_selection (the (arg_resume_from a))
      else the (arg_phase a))"

subsection \<open>Reading the trace\<close>

text \<open>The effects of running a phase for real: a subprocess, a per-phase log file.\<close>

definition phase_effect :: "event \<Rightarrow> bool" where
  "phase_effect e = (case e of Popen c \<Rightarrow> True | LogWritten f \<Rightarrow> True | _ \<Rightarrow> False)"

text \<open>The commands handed to \<open>Popen\<close>, in order.\<close>

fun spawned :: "event list \<Rightarrow> string list" where
  "spawned [] = []"
| "spawned (Popen c # es) = c # spawned es"
| "spawned (e # es) = spawned es"

text \<open>The documents written to the progress file, in order.\<close>

fun saved :: "event list \<Rightarrow> json list" where
  "saved [] = []"
| "saved (ProgressSaved d # es) = d # saved es"
| "saved (e # es) = saved es"

text \<open>The statuses of the records in a progress document, as \<open>load_progress\<close> reads them.\<close>

definition statuses_in :: "json \<Rightarrow> PhaseStatus list" where
  "statuses_in d = (case load_progress (Document d) of Inl x \<Rightarrow> [] | Inr rs \<Rightarrow> map status rs)"

text \<open>Every completed record carries a float as its duration, as \<open>execute_phase\<close> leaves it.\<close>

definition durations_recorded :: "PhaseResult list \<Rightarrow> bool" where
  "durations_recorded rs = (\<forall>r \<in> set rs. status r = COMPLETED \<longrightarrow> is_float (duration_seconds r))"

text \<open>The records stored under a phase identifier, in order.\<close>

definition records_of :: "int \<Rightarrow> PhaseResult list \<Rightarrow> PhaseResult list" where
  "records_of p rs = filter (\<lambda>r. eq_int (phase_number r) p) rs"

subsection \<open>The plan of resume mode, as the specification words it\<close>

text \<open>"Every catalog identifier \<open>\<ge> K\<close>, ascending."\<close>

definition resume_plan_spec :: "int \<Rightarrow> int list" where
  "resume_plan_spec k = filter (\<lambda>p. k \<le> p) (map fst PHASES)"

subsection \<open>A concrete outside, for running the model\<close>

text \<open>
  A clock that advances one second per reading, simple renderings of an instant, a root
  that is already resolved, a project with its marker directory, an interpreter with the
  usual limit on digits, and room for a thousand list elements. What the external
  commands do is the parameter.
\<close>

definition demo_env :: "(string \<Rightarrow> proc_outcome) \<Rightarrow> env" where
  "demo_env f =
     \<lparr>clock = (\<lambda>k. 1000000 * int k), isoformat = (\<lambda>t. ''T'' @ str_int t),
      strftime = (\<lambda>t. str_int (t div 1000000)), resolve = (\<lambda>p. p), popen = f,
      has_marker = True, can_mkdir = True, int_max_str_digits = 4300, spare_memory = 1000\<rparr>"

definition fresh_world :: world where
  "fresh_world = \<lparr>ticks = 0, progress_file = Absent, events = []\<rparr>"

definition demo_orch :: "bool \<Rightarrow> PhaseResult list \<Rightarrow> Orchestrator" where
  "demo_orch dry rs = \<lparr>project_root = ''/p'', dry_run = dry, results = rs\<rparr>"

definition demo_args :: "string \<Rightarrow> bool \<Rightarrow> args" where
  "demo_args sel dry =
     \<lparr>arg_phase = Some sel, arg_resume_from = None, arg_dry_run = dry,
      arg_project_root = ''/p''\<rparr>"

definition all_succeed :: "string \<Rightarrow> proc_outcome" where
  "all_succeed c = Exited 0"

definition phase2_fails :: "string \<Rightarrow> proc_outcome" where
  "phase2_fails c = (if c = ''claude /docjays-phase2'' then Exited 3 else Exited 0)"

definition launch_fails :: "string \<Rightarrow> proc_outcome" where
  "launch_fails c = LaunchFailed ''[Errno 2] No such file or directory''"

text \<open>Records as an earlier run, or an editor, may have left them in the progress file.\<close>

definition stored_result :: "int \<Rightarrow> PhaseStatus \<Rightarrow> rat option \<Rightarrow> PhaseResult" where
  "stored_result n st d =
     \<lparr>phase_number = JInt n, phase_name = JStr ''stored'', status = st, start_time = JStr ''T0'',
      end_time = JStr ''T9'',
      duration_seconds = (case d of None \<Rightarrow> JNull | Some x \<Rightarrow> JFloat x),
      error_message = (if st = FAILED then JStr ''Command exited with code 1'' else JNull),
      command_used = JStr ''claude /stored'',
      output_file = JStr ''/p/scripts/outputs/stored.log''\<rparr>"

definition world_with :: "PhaseResult list \<Rightarrow> world" where
  "world_with rs =
     \<lparr>ticks = 0, progress_file = Document (progress_document ''T0'' rs), events = []\<rparr>"

section \<open>Properties\<close>

subsection \<open>One phase, one iteration\<close>

lemma execute_phase_dry:
  "dry_run orch \<Longrightarrow> map_of PHASES n = Some info \<Longrightarrow>
     execute_phase E orch n w = (Inr (dry_result n info), w)"
  by (simp add: execute_phase_def)

lemma execute_phase_result:
  assumes "execute_phase E orch n w = (Inr r, w')"
  shows "phase_number r = JInt n"
    and "status r = COMPLETED \<or> status r = FAILED \<or> status r = SKIPPED"
    and "status r = COMPLETED \<Longrightarrow> is_float (duration_seconds r)"
  using assms
  by (auto simp: execute_phase_def dry_result_def fresh_result_def now_def emit_def Let_def
      is_float_def
      split: option.splits if_splits proc_outcome.splits prod.splits)

lemma execute_phase_raises:
  assumes "execute_phase E orch n w = (Inl x, w')"
  shows "(x = ValueError \<and> map_of PHASES n = None) \<or> (x = KeyboardInterrupt \<and> \<not> dry_run orch \<and> (\<exists>c. popen E c = Interrupted))"
  using assms
  by (auto simp: execute_phase_def now_def emit_def Let_def
      split: option.splits if_splits proc_outcome.splits prod.splits)

lemma execute_phase_world:
  assumes "execute_phase E orch n w = (res, w')"
  shows "progress_file w' = progress_file w"
    and "\<exists>es. events w' = events w @ es \<and> (\<forall>e \<in> set es. phase_effect e) \<and> (dry_run orch \<longrightarrow> es = [])"
  using assms
  by (auto simp: execute_phase_def now_def emit_def Let_def phase_effect_def
      split: option.splits if_splits proc_outcome.splits prod.splits)

lemma loop_unknown:
  "map_of PHASES p = None \<Longrightarrow> phase_loop E (p # rest) orch w = phase_loop E rest orch w"
  by simp

lemma loop_skip:
  "map_of PHASES p = Some info \<Longrightarrow> existing p (results orch) = Some e \<Longrightarrow>
   status e = COMPLETED \<Longrightarrow> format_2f (duration_seconds e) = None \<Longrightarrow>
     phase_loop E (p # rest) orch w = phase_loop E rest orch w"
  by (simp add: already_completed_def)

lemma loop_skip_raises:
  "map_of PHASES p = Some info \<Longrightarrow> existing p (results orch) = Some e \<Longrightarrow>
   status e = COMPLETED \<Longrightarrow> format_2f (duration_seconds e) = Some x \<Longrightarrow>
     phase_loop E (p # rest) orch w = (Some x, orch, w)"
  by (simp add: already_completed_def)

lemma loop_run:
  "map_of PHASES p = Some info \<Longrightarrow> \<not> already_completed p (results orch) \<Longrightarrow>
     phase_loop E (p # rest) orch w =
       (case execute_phase E orch p w of
          (Inl x, w1) \<Rightarrow> (Some x, orch, w1)
        | (Inr result, w1) \<Rightarrow>
            (let orch1 = orch\<lparr>results := update_results (existing p (results orch)) result (results orch)\<rparr>;
                 w2 = save_progress E orch1 w1
             in if status result = FAILED then (None, orch1, w2)
                else phase_loop E rest orch1 w2))"
  by (simp add: Let_def)

text \<open>
  An invariant of the loop: it holds at the end when it holds at the start and every
  execution of a planned phase of the catalog that is not yet completed keeps it.
\<close>

lemma phase_loop_invariant_sub:
  assumes step: "\<And>p o1 w1 r w2. I o1 w1 \<Longrightarrow> p \<in> set ps \<Longrightarrow> map_of PHASES p \<noteq> None \<Longrightarrow>
                   \<not> already_completed p (results o1) \<Longrightarrow>
                   execute_phase E o1 p w1 = (Inr r, w2) \<Longrightarrow>
                   I (o1\<lparr>results := update_results (existing p (results o1)) r (results o1)\<rparr>)
                     (save_progress E
                        (o1\<lparr>results := update_results (existing p (results o1)) r (results o1)\<rparr>) w2)"
      and exc: "\<And>p o1 w1 e w2. I o1 w1 \<Longrightarrow> p \<in> set ps \<Longrightarrow> map_of PHASES p \<noteq> None \<Longrightarrow>
                   \<not> already_completed p (results o1) \<Longrightarrow>
                   execute_phase E o1 p w1 = (Inl e, w2) \<Longrightarrow> I o1 w2"
  shows "set qs \<subseteq> set ps \<Longrightarrow> phase_loop E qs orch w = (x, orch', w') \<Longrightarrow> I orch w \<Longrightarrow> I orch' w'"
proof (induction qs arbitrary: orch w)
  case Nil
  then show ?case by simp
next
  case (Cons p rest)
  from Cons.prems(1) have pin: "p \<in> set ps" and sub: "set rest \<subseteq> set ps" by simp_all
  note run = Cons.prems(2) and init = Cons.prems(3)
  show ?case
  proof (cases "map_of PHASES p")
    case None
    with run have "phase_loop E rest orch w = (x, orch', w')" by simp
    from Cons.IH[OF sub this init] show ?thesis .
  next
    case (Some info)
    show ?thesis
    proof (cases "already_completed p (results orch)")
      case True
      then obtain e where e: "existing p (results orch) = Some e" "status e = COMPLETED"
        by (auto simp: already_completed_def split: option.splits)
      show ?thesis
      proof (cases "format_2f (duration_seconds e)")
        case (Some y)
        from loop_skip_raises[OF \<open>map_of PHASES p = Some info\<close> e this, of E rest w] run init
        show ?thesis by (simp del: phase_loop.simps)
      next
        case None
        from loop_skip[OF Some e this, of E rest w] run
        have "phase_loop E rest orch w = (x, orch', w')"
          by (simp del: phase_loop.simps)
        from Cons.IH[OF sub this init] show ?thesis .
      qed
    next
      case False
      obtain res w1 where ex: "execute_phase E orch p w = (res, w1)"
        by (cases "execute_phase E orch p w")
      show ?thesis
      proof (cases res)
        case (Inl e)
        with run Some False ex exc[OF init pin _ False, of e w1] show ?thesis
          by (simp add: loop_run del: phase_loop.simps)
      next
        case (Inr r)
        let ?o1 = "orch\<lparr>results := update_results (existing p (results orch)) r (results orch)\<rparr>"
        have I1: "I ?o1 (save_progress E ?o1 w1)"
          using step[OF init pin _ False] Some ex Inr by simp
        show ?thesis
        proof (cases "status r = FAILED")
          case True
          with run Some False ex Inr
          have "orch' = ?o1" "w' = save_progress E ?o1 w1"
            by (auto simp: loop_run Let_def simp del: phase_loop.simps)
          with I1 show ?thesis by simp
        next
          case F: False
          with run Some False ex Inr
          have "phase_loop E rest ?o1 (save_progress E ?o1 w1) = (x, orch', w')"
            by (simp add: loop_run Let_def del: phase_loop.simps)
          from Cons.IH[OF sub this I1] show ?thesis .
        qed
      qed
    qed
  qed
qed

lemma phase_loop_invariant:
  assumes run: "phase_loop E ps orch w = (x, orch', w')"
      and init: "I orch w"
      and step: "\<And>p o1 w1 r w2. I o1 w1 \<Longrightarrow> p \<in> set ps \<Longrightarrow> map_of PHASES p \<noteq> None \<Longrightarrow>
                   \<not> already_completed p (results o1) \<Longrightarrow>
                   execute_phase E o1 p w1 = (Inr r, w2) \<Longrightarrow>
                   I (o1\<lparr>results := update_results (existing p (results o1)) r (results o1)\<rparr>)
                     (save_progress E
                        (o1\<lparr>results := update_results (existing p (results o1)) r (results o1)\<rparr>) w2)"
      and exc: "\<And>p o1 w1 e w2. I o1 w1 \<Longrightarrow> p \<in> set ps \<Longrightarrow> map_of PHASES p \<noteq> None \<Longrightarrow>
                   \<not> already_completed p (results o1) \<Longrightarrow>
                   execute_phase E o1 p w1 = (Inl e, w2) \<Longrightarrow> I o1 w2"
  shows "I orch' w'"
  by (rule phase_loop_invariant_sub [where I = I and ps = ps and qs = ps, OF step exc _ run init])
     simp_all

subsection \<open>Saving and loading\<close>

lemma PhaseStatus_of_value_status_value: "PhaseStatus_of_value (status_value s) = Some s"
  by (cases s) (simp_all add: PhaseStatus_of_value_def)

lemma result_of_json_json_of_result: "result_of_json (json_of_result r) = Inr r"
  by (simp add: result_of_json_def json_of_result_def bind_def subscript_def get_def lookup_member_def
      as_status_def PhaseStatus_of_value_status_value)

lemma results_of_json_map: "results_of_json (map json_of_result rs) = Inr rs"
  by (induction rs) (simp_all add: result_of_json_json_of_result bind_def)

lemma load_progress_document: "load_progress (Document (progress_document t rs)) = Inr rs"
  by (simp add: load_progress_def progress_document_def lookup_member_def results_of_json_map)

lemma save_progress_file:
  "progress_file (save_progress E orch w) =
     Document (progress_document (isoformat E (clock E (ticks w))) (results orch))"
  by (simp add: save_progress_def now_def emit_def Let_def)

lemma save_progress_events:
  "events (save_progress E orch w) =
     events w @ [ProgressSaved (progress_document (isoformat E (clock E (ticks w))) (results orch))]"
  by (simp add: save_progress_def now_def emit_def Let_def)

text \<open>
  C7. Saving a collection of results and loading the file back gives the collection again,
  field for field, whatever the collection and whatever the last-updated text written
  beside it.
\<close>

theorem save_then_load:
  "load_progress (progress_file (save_progress E orch w)) = Inr (results orch)"
  by (simp add: save_progress_file load_progress_document)

theorem save_then_load_witness:
  "load_progress
     (progress_file
        (save_progress (demo_env all_succeed)
           \<lparr>project_root = ''/p'', dry_run = False,
            results = [stored_result 1 COMPLETED (Some 2), stored_result 2 FAILED None]\<rparr>
           fresh_world))
   = Inr [stored_result 1 COMPLETED (Some 2), stored_result 2 FAILED None]"
  using save_then_load
    [of "demo_env all_succeed"
        "\<lparr>project_root = ''/p'', dry_run = False,
          results = [stored_result 1 COMPLETED (Some 2), stored_result 2 FAILED None]\<rparr>"
        fresh_world]
  by simp

subsection \<open>Timestamps and duration of a result\<close>

text \<open>Unfolding the concrete outside and one execution, for evaluating the model.\<close>

lemmas demo_defs = demo_env_def demo_orch_def fresh_world_def all_succeed_def phase2_fails_def
  launch_fails_def demo_args_def world_with_def stored_result_def

lemmas run_defs = execute_phase_def now_def emit_def Let_def fresh_result_def dry_result_def
  output_dir_def path_join_def str_int_def nat_digits.simps digit_char_def total_seconds_def
  PHASES_def

text \<open>
  C3, as stated, fails: when launching the command raises an exception, the result has
  both a start and an end timestamp, and no duration.
\<close>

theorem launch_failure_has_no_duration:
  "fst (execute_phase (demo_env launch_fails) (demo_orch False []) 1 fresh_world) =
     Inr \<lparr>phase_number = JInt 1, phase_name = JStr ''Database Foundation'', status = FAILED,
          start_time = JStr ''T1000000'', end_time = JStr ''T2000000'',
          duration_seconds = JNull,
          error_message = JStr ''[Errno 2] No such file or directory'',
          command_used = JStr ''claude /docjays-phase1'', output_file = JNull\<rparr>"
  by (simp add: demo_defs run_defs)

text \<open>
  C3, amended. For every result of \<open>execute_phase\<close>: in dry-run mode both timestamps and
  the duration are absent; otherwise both timestamps are present, and the duration equals
  end minus start in seconds when the command ran to its exit, and is absent when
  launching it raised an exception. In every case the duration is absent whenever either
  timestamp is absent.
\<close>

theorem duration_of_result:
  assumes "fst (execute_phase E orch n w) = Inr r"
  shows "\<exists>info. map_of PHASES n = Some info \<and>
          (if dry_run orch
           then start_time r = JNull \<and> end_time r = JNull \<and> duration_seconds r = JNull
           else start_time r = JStr (isoformat E (clock E (Suc (ticks w))))
              \<and> end_time r = JStr (isoformat E (clock E (Suc (Suc (ticks w)))))
              \<and> duration_seconds r =
                  (case popen E (''claude /'' @ command info) of
                     LaunchFailed e \<Rightarrow> JNull
                   | _ \<Rightarrow> JFloat (total_seconds (clock E (Suc (ticks w)))
                                   (clock E (Suc (Suc (ticks w)))))))
        \<and> (start_time r = JNull \<or> end_time r = JNull \<longrightarrow> duration_seconds r = JNull)"
proof (cases "map_of PHASES n")
  case None
  with assms show ?thesis by (simp add: execute_phase_def)
next
  case (Some info)
  show ?thesis
  proof (cases "dry_run orch")
    case True
    with assms Some show ?thesis
      by (auto simp: execute_phase_def dry_result_def fresh_result_def)
  next
    case False
    show ?thesis
    proof (cases "popen E (''claude /'' @ command info)")
      case (Exited rc)
      with assms Some False show ?thesis
        by (cases "rc = 0") (auto simp: execute_phase_def fresh_result_def now_def emit_def Let_def)
    next
      case (LaunchFailed e)
      with assms Some False show ?thesis
        by (auto simp: execute_phase_def fresh_result_def now_def emit_def Let_def)
    next
      case Interrupted
      with assms Some False show ?thesis
        by (simp add: execute_phase_def fresh_result_def now_def emit_def Let_def)
    qed
  qed
qed

theorem duration_of_result_witness:
  "fst (execute_phase (demo_env all_succeed) (demo_orch False []) 1 fresh_world) =
     Inr \<lparr>phase_number = JInt 1, phase_name = JStr ''Database Foundation'', status = COMPLETED,
          start_time = JStr ''T1000000'', end_time = JStr ''T2000000'',
          duration_seconds = JFloat 1, error_message = JNull,
          command_used = JStr ''claude /docjays-phase1'',
          output_file = JStr ''/p/scripts/outputs/phase1_0.log''\<rparr>
   \<and> total_seconds (clock (demo_env all_succeed) 1) (clock (demo_env all_succeed) 2) = 1"
proof -
  have h: "fst (execute_phase (demo_env all_succeed) (demo_orch False []) 1 fresh_world) =
     Inr \<lparr>phase_number = JInt 1, phase_name = JStr ''Database Foundation'', status = COMPLETED,
          start_time = JStr ''T1000000'', end_time = JStr ''T2000000'',
          duration_seconds = JFloat 1, error_message = JNull,
          command_used = JStr ''claude /docjays-phase1'',
          output_file = JStr ''/p/scripts/outputs/phase1_0.log''\<rparr>"
    by (simp add: demo_defs run_defs)
  from duration_of_result [OF h] have
    "total_seconds (clock (demo_env all_succeed) (Suc (ticks fresh_world)))
       (clock (demo_env all_succeed) (Suc (Suc (ticks fresh_world)))) = 1"
    by (auto simp: demo_orch_def all_succeed_def demo_env_def)
  with h show ?thesis by (simp add: fresh_world_def numeral_2_eq_2)
qed

subsection \<open>Recording a result\<close>

text \<open>
  Plans of some selections. Numbers of up to 640 digits are read whatever the limit on
  digits is, and a list as long as the catalog fits in memory.
\<close>

lemma plan_of_number:
  assumes "lower s \<noteq> ''all''" and "CHR ''-'' \<notin> set s" and "literal_value s = Some i"
      and "length (filter is_digit s) \<le> 640"
  shows "phases_to_run E s = Inr [i]"
  using assms by (simp add: phases_to_run_def py_int_def)

lemma plan_of_range:
  assumes "lower s \<noteq> ''all''" and "CHR ''-'' \<in> set s" and "py_split CHR ''-'' s = [a, b]"
      and "literal_value a = Some i" and "literal_value b = Some j"
      and "length (filter is_digit a) \<le> 640" and "length (filter is_digit b) \<le> 640"
      and "j < i + 7"
  shows "phases_to_run E s = Inr [i..j]"
proof -
  from assms(8) have "nat (j + 1 - i) \<le> 7" by simp
  then have fits: "\<not> maxsize < nat (j + 1 - i)" "\<not> list_capacity E < nat (j + 1 - i)"
    by (simp_all add: maxsize_def list_capacity_def PHASES_def)
  show ?thesis
    using assms(1-7) fits by (simp add: phases_to_run_def py_int_def list_range_def Let_def)
qed

lemma plan_1: "phases_to_run E ''1'' = Inr [1]"
  by (rule plan_of_number; code_simp)

lemma plan_2: "phases_to_run E ''2'' = Inr [2]"
  by (rule plan_of_number; code_simp)

lemma plan_9: "phases_to_run E ''9'' = Inr [9]"
  by (rule plan_of_number; code_simp)

lemma plan_1_2: "phases_to_run E ''1-2'' = Inr [1, 2]"
proof -
  have "phases_to_run E ''1-2'' = Inr [1..2]"
    by (rule plan_of_range [where a = "''1''" and b = "''2''"]; code_simp)
  moreover have "[1..2] = [1, 2::int]" by code_simp
  ultimately show ?thesis by simp
qed

lemmas eval_defs = run_phases_def phase_loop.simps existing_def already_completed_def
  update_results_def save_progress_def generate_report_def count_status_def eq_int_def
  format_2f_def report_raises_def total_overflows_def truthy_def is_float_def int_of_def
  to_float_ok_def

text \<open>
  C4, as stated, fails: the store holds a failed record for phase 1 followed by a record
  for phase 2; after phase 1 is run again its new record is last, not first.
\<close>

theorem rerun_moves_record_to_the_end:
  "map phase_number
     (results (fst (snd (run_phases (demo_env all_succeed) ''1''
        (demo_orch False [stored_result 1 FAILED None, stored_result 2 COMPLETED (Some 2)])
        fresh_world)))) = [JInt 2, JInt 1]"
  by (simp add: plan_1 eval_defs demo_defs run_defs)

lemma existing_split:
  assumes "existing p rs = Some e"
  shows "\<exists>before after. rs = before @ e # after
           \<and> (\<forall>x \<in> set before. \<not> eq_int (phase_number x) p)
           \<and> eq_int (phase_number e) p \<and> remove1 e rs = before @ after"
  using assms unfolding existing_def
proof (induction rs)
  case Nil
  then show ?case by simp
next
  case (Cons a rs)
  show ?case
  proof (cases "eq_int (phase_number a) p")
    case True
    with Cons.prems have "a = e" by simp
    with True show ?thesis by (intro exI[of _ "[]"] exI[of _ rs]) simp
  next
    case False
    with Cons.prems have "find (\<lambda>r. eq_int (phase_number r) p) rs = Some e" by simp
    from Cons.IH[OF this] obtain before after where
      ba: "rs = before @ e # after" "\<forall>x \<in> set before. \<not> eq_int (phase_number x) p"
          "eq_int (phase_number e) p" "remove1 e rs = before @ after"
      by blast
    from False ba(3) have "a \<noteq> e" by auto
    with ba False show ?thesis
      by (intro exI[of _ "a # before"] exI[of _ after]) simp
  qed
qed

text \<open>
  C4, amended. When the controller records the result of a phase, the first record with
  that phase identifier, if there is one, is taken out of the collection, the other
  records keep their order, and the new record is put at the end; the collection is then
  saved, and the controller stops if the result is failed and goes on otherwise.
\<close>

theorem results_update:
  assumes info: "map_of PHASES p = Some info"
      and todo: "\<not> already_completed p (results orch)"
      and exec: "fst (execute_phase E orch p w) = Inr r"
  shows "\<exists>rs'.
           (case existing p (results orch) of
              None \<Rightarrow> rs' = results orch @ [r]
            | Some e \<Rightarrow>
                (\<exists>before after. results orch = before @ e # after
                   \<and> (\<forall>x \<in> set before. \<not> eq_int (phase_number x) p)
                   \<and> rs' = before @ after @ [r]))
         \<and> phase_loop E (p # rest) orch w =
             (if status r = FAILED
              then (None, orch\<lparr>results := rs'\<rparr>,
                    save_progress E (orch\<lparr>results := rs'\<rparr>) (snd (execute_phase E orch p w)))
              else phase_loop E rest (orch\<lparr>results := rs'\<rparr>)
                     (save_progress E (orch\<lparr>results := rs'\<rparr>)
                        (snd (execute_phase E orch p w))))"
proof -
  let ?rs = "update_results (existing p (results orch)) r (results orch)"
  obtain w1 where w1: "w1 = snd (execute_phase E orch p w)" by simp
  with exec have exec': "execute_phase E orch p w = (Inr r, w1)"
    by (cases "execute_phase E orch p w") simp
  have loop: "phase_loop E (p # rest) orch w =
             (if status r = FAILED
              then (None, orch\<lparr>results := ?rs\<rparr>, save_progress E (orch\<lparr>results := ?rs\<rparr>) w1)
              else phase_loop E rest (orch\<lparr>results := ?rs\<rparr>)
                     (save_progress E (orch\<lparr>results := ?rs\<rparr>) w1))"
    using info todo exec' by (simp add: loop_run Let_def)
  have shape: "case existing p (results orch) of
              None \<Rightarrow> ?rs = results orch @ [r]
            | Some e \<Rightarrow>
                (\<exists>before after. results orch = before @ e # after
                   \<and> (\<forall>x \<in> set before. \<not> eq_int (phase_number x) p)
                   \<and> ?rs = before @ after @ [r])"
  proof (cases "existing p (results orch)")
    case None
    then show ?thesis by (simp add: update_results_def)
  next
    case (Some e)
    from existing_split[OF Some] obtain before after where
      "results orch = before @ e # after" "\<forall>x \<in> set before. \<not> eq_int (phase_number x) p"
      "remove1 e (results orch) = before @ after"
      by blast
    with Some show ?thesis by (auto simp: update_results_def)
  qed
  from shape loop show ?thesis unfolding w1 by blast
qed

theorem results_update_witness:
  "results (fst (snd (phase_loop (demo_env all_succeed) [1]
      (demo_orch False [stored_result 1 FAILED None, stored_result 2 COMPLETED (Some 2)])
      fresh_world))) =
   [stored_result 2 COMPLETED (Some 2),
    \<lparr>phase_number = JInt 1, phase_name = JStr ''Database Foundation'', status = COMPLETED,
     start_time = JStr ''T1000000'', end_time = JStr ''T2000000'',
     duration_seconds = JFloat 1, error_message = JNull,
     command_used = JStr ''claude /docjays-phase1'',
     output_file = JStr ''/p/scripts/outputs/phase1_0.log''\<rparr>]"
proof -
  let ?rs = "[stored_result 1 FAILED None, stored_result 2 COMPLETED (Some 2)]"
  have info: "map_of PHASES 1 = Some (the (map_of PHASES 1))"
    by (simp add: PHASES_def)
  have todo: "\<not> already_completed 1 (results (demo_orch False ?rs))"
    by (simp add: already_completed_def existing_def eq_int_def demo_defs)
  have ex: "existing 1 (results (demo_orch False ?rs)) = Some (stored_result 1 FAILED None)"
    by (simp add: existing_def eq_int_def demo_defs)
  have exec: "fst (execute_phase (demo_env all_succeed) (demo_orch False ?rs) 1 fresh_world) =
     Inr \<lparr>phase_number = JInt 1, phase_name = JStr ''Database Foundation'', status = COMPLETED,
          start_time = JStr ''T1000000'', end_time = JStr ''T2000000'',
          duration_seconds = JFloat 1, error_message = JNull,
          command_used = JStr ''claude /docjays-phase1'',
          output_file = JStr ''/p/scripts/outputs/phase1_0.log''\<rparr>"
    by (simp add: demo_defs run_defs)
  have ne: "stored_result 1 FAILED None \<noteq> stored_result 2 COMPLETED (Some 2)"
    by (simp add: stored_result_def)
  from results_update [OF info todo exec, of "[]"] ex ne show ?thesis
    by (auto simp: demo_orch_def append_eq_Cons_conv Cons_eq_append_conv)
qed

subsection \<open>Stopping at the first failure\<close>

declare phase_loop.simps(2) [simp del]

lemma plan_1_3: "phases_to_run E ''1-3'' = Inr [1, 2, 3]"
proof -
  have "phases_to_run E ''1-3'' = Inr [1..3]"
    by (rule plan_of_range [where a = "''1''" and b = "''3''"]; code_simp)
  moreover have "[1..3] = [1, 2, 3::int]" by code_simp
  ultimately show ?thesis by simp
qed

lemma spawned_append: "spawned (es @ fs) = spawned es @ spawned fs"
  by (induction es rule: spawned.induct) simp_all

lemma saved_append: "saved (es @ fs) = saved es @ saved fs"
  by (induction es rule: saved.induct) simp_all

text \<open>A report on records whose completed ones carry the duration of a run is printed.\<close>

lemma first_raised_none: "\<forall>x \<in> set xs. x = None \<Longrightarrow> first_raised xs = None"
  by (induction xs rule: first_raised.induct) simp_all

lemma takeWhile_no_float:
  "\<forall>d \<in> set ds. is_float d \<Longrightarrow> takeWhile (\<lambda>d. \<not> is_float d) (filter truthy ds) = []"
  by (induction ds) simp_all

lemma report_raises_none:
  assumes "durations_recorded rs"
  shows "report_raises rs = None"
proof -
  let ?ds = "map duration_seconds (filter (\<lambda>r. status r = COMPLETED) rs)"
  from assms have fl: "\<forall>d \<in> set ?ds. is_float d"
    by (auto simp: durations_recorded_def)
  then have "\<forall>x \<in> set (map format_2f ?ds). x = None"
    by (auto simp: is_float_def format_2f_def split: json.splits)
  then have a: "first_raised (map format_2f ?ds) = None" by (rule first_raised_none)
  from takeWhile_no_float[OF fl] have b: "\<not> total_overflows ?ds"
    by (simp add: total_overflows_def to_float_ok_def)
  from a b show ?thesis by (simp add: report_raises_def Let_def)
qed

lemma generate_report_ok:
  "durations_recorded (results orch) \<Longrightarrow> fst (generate_report E orch w) = None"
  by (simp add: generate_report_def report_raises_none now_def Let_def)

lemma generate_report_world:
  "progress_file (snd (generate_report E orch w)) = progress_file w"
  "spawned (events (snd (generate_report E orch w))) = spawned (events w)"
  by (simp_all add: generate_report_def now_def emit_def Let_def spawned_append
      split: option.splits)

text \<open>What a real execution leaves when the command exits.\<close>

lemma execute_phase_exited:
  assumes "\<not> dry_run orch" "map_of PHASES n = Some info"
      and "popen E (''claude /'' @ command info) = Exited rc"
  shows "\<exists>r w'. execute_phase E orch n w = (Inr r, w')
           \<and> phase_number r = JInt n
           \<and> status r = (if rc = 0 then COMPLETED else FAILED)
           \<and> spawned (events w') = spawned (events w) @ [''claude /'' @ command info]
           \<and> saved (events w') = saved (events w)"
  using assms
  by (simp add: execute_phase_def now_def emit_def Let_def fresh_result_def spawned_append saved_append)

text \<open>
  C2. With no earlier record, not in dry-run mode, when the command of phase 1 exits with
  0 and the command of phase 2 exits with a nonzero code, the selection "1-3" runs phase 1
  (completed), runs phase 2 (failed) and stops: the commands launched are those of phases
  1 and 2 and no other, the controller returns normally, and the progress file afterwards
  loads as exactly these two records.
\<close>

theorem stop_on_failure:
  assumes p1: "popen E ''claude /docjays-phase1'' = Exited 0"
      and p2: "popen E ''claude /docjays-phase2'' = Exited rc" and rc: "rc \<noteq> 0"
      and real: "\<not> dry_run orch" and empty: "results orch = []"
  shows "\<exists>orch' w'. run_phases E ''1-3'' orch w = (None, orch', w')
           \<and> map phase_number (results orch') = [JInt 1, JInt 2]
           \<and> map status (results orch') = [COMPLETED, FAILED]
           \<and> spawned (events w') =
               spawned (events w) @ [''claude /docjays-phase1'', ''claude /docjays-phase2'']
           \<and> load_progress (progress_file w') = Inr (results orch')
           \<and> length (results orch') = 2"
proof -
  obtain i1 where i1: "map_of PHASES 1 = Some i1" "command i1 = ''docjays-phase1''"
    by (simp add: PHASES_def)
  obtain i2 where i2: "map_of PHASES 2 = Some i2" "command i2 = ''docjays-phase2''"
    by (simp add: PHASES_def)
  from execute_phase_exited[OF real i1(1), of E 0 w] p1 i1(2)
  obtain r1 w1 where r1: "execute_phase E orch 1 w = (Inr r1, w1)" "phase_number r1 = JInt 1"
      "status r1 = COMPLETED" "spawned (events w1) = spawned (events w) @ [''claude /docjays-phase1'']"
    by auto
  let ?o1 = "orch\<lparr>results := [r1]\<rparr>"
  let ?w1 = "save_progress E ?o1 w1"
  have real1: "\<not> dry_run ?o1" using real by simp
  from execute_phase_exited[OF real1 i2(1), of E rc ?w1] p2 i2(2) rc
  obtain r2 w2 where r2: "execute_phase E ?o1 2 ?w1 = (Inr r2, w2)" "phase_number r2 = JInt 2"
      "status r2 = FAILED" "spawned (events w2) = spawned (events ?w1) @ [''claude /docjays-phase2'']"
    by auto
  let ?o2 = "orch\<lparr>results := [r1, r2]\<rparr>"
  let ?w2 = "save_progress E ?o2 w2"
  have ex1: "existing 1 (results orch) = None" using empty by (simp add: existing_def)
  have ex2: "existing 2 [r1] = None" using r1 by (simp add: existing_def eq_int_def)
  have loop: "phase_loop E [1, 2, 3] orch w = (None, ?o2, ?w2)"
    using i1 i2 r1 r2 ex1 ex2 empty
    by (simp add: loop_run already_completed_def update_results_def Let_def)
  have d1: "is_float (duration_seconds r1)"
    using execute_phase_result(3)[OF r1(1)] r1(3) by simp
  have "durations_recorded (results ?o2)"
    using r1 r2 d1 by (simp add: durations_recorded_def)
  from generate_report_ok[OF this, of E ?w2]
  have rep: "fst (generate_report E ?o2 ?w2) = None" .
  have run: "run_phases E ''1-3'' orch w = (None, ?o2, snd (generate_report E ?o2 ?w2))"
    by (simp add: run_phases_def plan_1_3 loop rep case_prod_beta)
  note ev = generate_report_world(2)[of E ?o2 ?w2]
  note pf = generate_report_world(1)[of E ?o2 ?w2]
  show ?thesis
    using run ev pf r1 r2
    by (simp add: save_progress_file save_progress_events load_progress_document spawned_append)
qed

theorem stop_on_failure_witness:
  "fst (run_phases (demo_env phase2_fails) ''1-3'' (demo_orch False []) fresh_world) = None
   \<and> map status
        (results (fst (snd (run_phases (demo_env phase2_fails) ''1-3'' (demo_orch False [])
           fresh_world)))) = [COMPLETED, FAILED]
   \<and> spawned
        (events (snd (snd (run_phases (demo_env phase2_fails) ''1-3'' (demo_orch False [])
           fresh_world)))) = [''claude /docjays-phase1'', ''claude /docjays-phase2'']"
  using stop_on_failure [of "demo_env phase2_fails" 3 "demo_orch False []" fresh_world]
  by (auto simp: demo_env_def phase2_fails_def demo_orch_def fresh_world_def)

subsection \<open>Resuming\<close>

lemma max_phase_7: "max_phase = 7"
  by (simp add: max_phase_def PHASES_def)

lemma keys_PHASES: "map fst PHASES = [1, 2, 3, 4, 5, 6, 7]"
  by (simp add: PHASES_def)

lemma str_int_7: "str_int 7 = ''7''"
  by code_simp

lemma plan_to_7:
  assumes "lower (str_int k @ ''-7'') \<noteq> ''all''" and "CHR ''-'' \<in> set (str_int k @ ''-7'')"
      and "py_split CHR ''-'' (str_int k @ ''-7'') = [str_int k, ''7'']"
      and "literal_value (str_int k) = Some k" and "literal_value ''7'' = Some 7"
      and "length (filter is_digit (str_int k)) \<le> 640"
      and "length (filter is_digit ''7'') \<le> 640" and "7 < k + 7"
  shows "phases_to_run E (str_int k @ ''-7'') = Inr [k..7]"
  using assms by (rule plan_of_range)

lemma plan_k_7:
  assumes "k = 1 \<or> k = 2 \<or> k = 3 \<or> k = 4 \<or> k = 5 \<or> k = 6 \<or> k = 7"
  shows "phases_to_run E (str_int k @ ''-7'') = Inr [k..7]"
proof -
  have "phases_to_run E (str_int j @ ''-7'') = Inr [j..7]" if "j \<in> {1, 2, 3, 4, 5, 6, 7}" for j
    using that
    apply (elim insertE emptyE)
    apply (hypsubst, rule plan_to_7; code_simp)+
    done
  with assms show ?thesis by auto
qed

text \<open>
  C8. For every phase identifier K of the catalog (identifiers 1 to 7), resuming from K
  runs the controller on the selection "K-7"; the plan of that selection is the range from
  K to 7, which is every catalog identifier from K on, ascending.
\<close>

theorem resume_plan:
  assumes "k \<in> set (map fst PHASES)"
  shows "resume_from E k orch w = run_phases E (str_int k @ ''-7'') orch w
       \<and> phases_to_run E (resume_selection k) = phases_to_run E (str_int k @ ''-7'')
       \<and> phases_to_run E (resume_selection k) = Inr [k..7]
       \<and> [k..7] = resume_plan_spec k"
proof -
  have sel: "resume_selection k = str_int k @ ''-7''"
    by (simp add: resume_selection_def max_phase_7 str_int_7)
  from assms have k: "k = 1 \<or> k = 2 \<or> k = 3 \<or> k = 4 \<or> k = 5 \<or> k = 6 \<or> k = 7"
    by (simp add: keys_PHASES)
  then have "[k..7] = resume_plan_spec k"
    unfolding resume_plan_spec_def keys_PHASES
    by (elim disjE; hypsubst; code_simp)
  with plan_k_7[OF k, of E] show ?thesis by (simp add: sel resume_from_def)
qed

theorem resume_plan_witness:
  "(3::int) \<in> set (map fst PHASES)
   \<and> phases_to_run (demo_env all_succeed) (resume_selection 3) = Inr [3, 4, 5, 6, 7]
   \<and> resume_plan_spec 3 = [3, 4, 5, 6, 7]"
proof -
  have k: "(3::int) \<in> set (map fst PHASES)" by (simp add: keys_PHASES)
  have up: "[3..7] = [3, 4, 5, 6, 7::int]" by code_simp
  from resume_plan [OF k, of "demo_env all_succeed" "demo_orch True []" fresh_world]
  have a: "phases_to_run (demo_env all_succeed) (resume_selection 3) = Inr [3..7]"
    and b: "[3..7] = resume_plan_spec 3"
    by blast+
  from k a b [symmetric] show ?thesis by (simp add: up)
qed

subsection \<open>How the loop ends\<close>

lemma eq_int_inj: "eq_int v p \<Longrightarrow> eq_int v q \<Longrightarrow> p = q"
  by (cases v) (auto simp: eq_int_def split: if_splits)

lemma eq_int_JInt [simp]: "eq_int (JInt n) p = (n = p)"
  by (simp add: eq_int_def)

lemma existing_in_set:
  "existing p rs = Some e \<Longrightarrow> e \<in> set rs \<and> eq_int (phase_number e) p"
  by (auto simp: existing_def find_Some_iff)

lemma update_results_subset: "set (update_results ex r rs) \<subseteq> insert r (set rs)"
  by (auto simp: update_results_def split: option.splits dest: notin_set_remove1)

lemma update_results_new: "r \<in> set (update_results ex r rs)"
  by (simp add: update_results_def)

lemma find_remove1_other: "\<not> P e \<Longrightarrow> find P (remove1 e xs) = find P xs"
  by (induction xs) auto

lemma find_append_other: "\<not> P r \<Longrightarrow> find P (xs @ [r]) = find P xs"
  by (induction xs) auto

lemma existing_update_other:
  assumes "phase_number r = JInt q" and "p \<noteq> q"
  shows "existing p (update_results (existing q rs) r rs) = existing p rs"
proof (cases "existing q rs")
  case None
  with assms show ?thesis
    by (simp add: update_results_def existing_def find_append_other)
next
  case (Some e)
  from existing_in_set[OF Some] assms(2) have "\<not> eq_int (phase_number e) p"
    by (auto dest: eq_int_inj)
  with Some assms show ?thesis
    by (simp add: update_results_def existing_def find_append_other find_remove1_other)
qed

lemma phase_loop_durations:
  assumes "phase_loop E ps orch w = (x, orch', w')" and "durations_recorded (results orch)"
  shows "durations_recorded (results orch')"
proof (rule phase_loop_invariant [OF assms(1), where I = "\<lambda>s w. durations_recorded (results s)"])
  show "durations_recorded (results orch)" by fact
next
  fix p o1 w1 r w2
  assume inv: "durations_recorded (results o1)"
     and ex: "execute_phase E o1 p w1 = (Inr r, w2)"
  from execute_phase_result(3)[OF ex] inv update_results_subset[of "existing p (results o1)" r "results o1"]
  show "durations_recorded
          (results (o1\<lparr>results := update_results (existing p (results o1)) r (results o1)\<rparr>))"
    by (auto simp: durations_recorded_def)
qed

text \<open>
  The loop is left by an exception only when a completed record carries something else
  than a float as its duration, or when the operator interrupts a command.
\<close>

lemma phase_loop_raises:
  assumes "phase_loop E ps orch w = (Some x, orch', w')"
  shows "\<not> durations_recorded (results orch')
       \<or> (x = KeyboardInterrupt \<and> \<not> dry_run orch \<and> (\<exists>c. popen E c = Interrupted))"
  using assms
proof (induction ps arbitrary: orch w)
  case Nil
  then show ?case by simp
next
  case (Cons p rest)
  show ?case
  proof (cases "map_of PHASES p")
    case None
    with Cons show ?thesis by (simp add: loop_unknown)
  next
    case (Some info)
    show ?thesis
    proof (cases "already_completed p (results orch)")
      case True
      then obtain e where e: "existing p (results orch) = Some e" "status e = COMPLETED"
        by (auto simp: already_completed_def split: option.splits)
      show ?thesis
      proof (cases "format_2f (duration_seconds e)")
        case (Some y)
        from loop_skip_raises[OF \<open>map_of PHASES p = Some info\<close> e this, of E rest w] Cons.prems
        have "orch' = orch" by simp
        moreover from Some have "\<not> is_float (duration_seconds e)"
          by (auto simp: format_2f_def is_float_def split: json.splits)
        with e existing_in_set[OF e(1)] have "\<not> durations_recorded (results orch)"
          by (auto simp: durations_recorded_def)
        ultimately show ?thesis by simp
      next
        case None
        from loop_skip[OF Some e this, of E rest w] Cons.prems
        have "phase_loop E rest orch w = (Some x, orch', w')" by simp
        from Cons.IH[OF this] show ?thesis .
      qed
    next
      case False
      obtain res w1 where ex: "execute_phase E orch p w = (res, w1)"
        by (cases "execute_phase E orch p w")
      show ?thesis
      proof (cases res)
        case (Inl e)
        with Cons.prems Some False ex have "x = e" by (simp add: loop_run)
        with execute_phase_raises[of E orch p w e w1] ex Inl Some show ?thesis by auto
      next
        case (Inr r)
        let ?o1 = "orch\<lparr>results := update_results (existing p (results orch)) r (results orch)\<rparr>"
        show ?thesis
        proof (cases "status r = FAILED")
          case True
          with Cons.prems Some False ex Inr show ?thesis by (simp add: loop_run Let_def)
        next
          case F: False
          with Cons.prems(1) Some False ex Inr
          have "phase_loop E rest ?o1 (save_progress E ?o1 w1) = (Some x, orch', w')"
            by (simp add: loop_run Let_def)
          from Cons.IH[OF this] show ?thesis by simp
        qed
      qed
    qed
  qed
qed

lemma statuses_in_document: "statuses_in (progress_document t rs) = map status rs"
  by (simp add: statuses_in_def load_progress_document)

lemmas main_defs = main_def truthy_str_def truthy_int_def load_progress_def resume_from_def

lemma run_phases_returns:
  assumes "durations_recorded (results orch)" and "phases_to_run E sel = Inr plan"
      and "\<forall>c. popen E c \<noteq> Interrupted"
  shows "fst (run_phases E sel orch w) = None"
proof -
  obtain x orch' w' where loop: "phase_loop E plan orch w = (x, orch', w')"
    by (cases "phase_loop E plan orch w")
  from phase_loop_durations[OF loop assms(1)] have d: "durations_recorded (results orch')" .
  have "x = None"
  proof (cases x)
    case (Some e)
    with phase_loop_raises[of E plan orch w e orch' w'] loop d assms(3) show ?thesis by auto
  qed simp
  with loop assms(2) generate_report_ok[OF d, of E w'] show ?thesis
    by (simp add: run_phases_def case_prod_beta)
qed

lemma main_dispatch:
  "(if truthy_int (arg_resume_from a)
    then resume_from E (the (arg_resume_from a)) orch w
    else run_phases E (the (arg_phase a)) orch w) = run_phases E (selection a) orch w"
  by (simp add: selection_def resume_from_def)

lemma main_exit:
  "fst (main E a w) =
     (if \<not> truthy_str (arg_phase a) \<and> \<not> truthy_int (arg_resume_from a) then 2
      else if \<not> has_marker E then 1
      else if \<not> can_mkdir E then 1
      else (case load_progress (progress_file w) of
              Inl x \<Rightarrow> 1
            | Inr rs \<Rightarrow>
                (case fst (run_phases E (selection a)
                        \<lparr>project_root = resolve E (arg_project_root a),
                         dry_run = arg_dry_run a, results = rs\<rparr> w) of
                   None \<Rightarrow> 0 | Some x \<Rightarrow> 1)))"
  unfolding main_def main_dispatch Let_def
  by (auto split: sum.splits prod.splits option.splits exn.splits)

lemma plan_all: "phases_to_run E ''all'' = Inr [1, 2, 3, 4, 5, 6, 7]"
proof -
  have "lower ''all'' = ''all''" by code_simp
  then show ?thesis by (simp add: phases_to_run_def keys_PHASES)
qed

lemma loop_interrupted:
  assumes "map_of PHASES p = Some info" and "\<not> already_completed p (results orch)"
      and "\<not> dry_run orch" and "popen E (''claude /'' @ command info) = Interrupted"
  shows "fst (phase_loop E (p # rest) orch w) = Some KeyboardInterrupt"
  using assms
  by (simp add: loop_run execute_phase_def now_def emit_def Let_def split: prod.splits)

subsection \<open>Exit codes\<close>

text \<open>
  C1, as stated, fails: the run over "1-3" in which the command of phase 2 exits with 3
  saves a failed record for phase 2, and the process exits with code 0.
\<close>

theorem failed_phase_exits_zero:
  "fst (main (demo_env phase2_fails) (demo_args ''1-3'' False) fresh_world) = 0
   \<and> map statuses_in
        (saved (events (snd (main (demo_env phase2_fails) (demo_args ''1-3'' False) fresh_world))))
      = [ [COMPLETED], [COMPLETED, FAILED] ]"
  by (simp add: main_defs plan_1_3 eval_defs demo_defs run_defs statuses_in_document)

text \<open>
  C1, amended. The exit code is 0 exactly when the arguments are usable, the marker
  directory exists, the output directory can be created, the progress file loads and the
  controller returns without raising; it is 2 exactly on a usage error, and 1 otherwise.
  With a store whose completed records carry the duration of a run, a selection that
  gives a plan and no interruption, the controller does return, so the exit code is 0
  whether or not a phase fails. An interruption of the first phase of the plan, and a
  selection that gives no plan, give 1.
\<close>

theorem exit_code:
  "(fst (main E a w) = 0 \<longleftrightarrow>
      (truthy_str (arg_phase a) \<or> truthy_int (arg_resume_from a)) \<and> has_marker E \<and>
      can_mkdir E \<and>
      (\<exists>rs. load_progress (progress_file w) = Inr rs \<and>
            fst (run_phases E (selection a)
                   \<lparr>project_root = resolve E (arg_project_root a), dry_run = arg_dry_run a,
                    results = rs\<rparr> w) = None))
   \<and> (fst (main E a w) = 2 \<longleftrightarrow>
        \<not> truthy_str (arg_phase a) \<and> \<not> truthy_int (arg_resume_from a))
   \<and> (fst (main E a w) = 0 \<or> fst (main E a w) = 1 \<or> fst (main E a w) = 2)
   \<and> ((truthy_str (arg_phase a) \<or> truthy_int (arg_resume_from a)) \<and> has_marker E \<and>
        can_mkdir E \<and>
        (\<exists>rs plan. load_progress (progress_file w) = Inr rs \<and> durations_recorded rs \<and>
                   phases_to_run E (selection a) = Inr plan) \<and>
        (\<forall>c. popen E c \<noteq> Interrupted)
        \<longrightarrow> fst (main E a w) = 0)
   \<and> ((truthy_str (arg_phase a) \<or> truthy_int (arg_resume_from a)) \<and> has_marker E \<and>
        can_mkdir E \<and>
        (\<exists>rs p rest info. load_progress (progress_file w) = Inr rs \<and>
             phases_to_run E (selection a) = Inr (p # rest) \<and> map_of PHASES p = Some info \<and>
             \<not> already_completed p rs \<and> \<not> arg_dry_run a \<and>
             popen E (''claude /'' @ command info) = Interrupted)
        \<longrightarrow> fst (main E a w) = 1)
   \<and> ((truthy_str (arg_phase a) \<or> truthy_int (arg_resume_from a)) \<and>
        (\<exists>e. phases_to_run E (selection a) = Inl e)
        \<longrightarrow> fst (main E a w) = 1)"
proof (intro conjI impI)
  show "fst (main E a w) = 0 \<longleftrightarrow>
      (truthy_str (arg_phase a) \<or> truthy_int (arg_resume_from a)) \<and> has_marker E \<and>
      can_mkdir E \<and>
      (\<exists>rs. load_progress (progress_file w) = Inr rs \<and>
            fst (run_phases E (selection a)
                   \<lparr>project_root = resolve E (arg_project_root a), dry_run = arg_dry_run a,
                    results = rs\<rparr> w) = None)"
    by (auto simp: main_exit split: sum.splits option.splits)
  show "fst (main E a w) = 2 \<longleftrightarrow>
        \<not> truthy_str (arg_phase a) \<and> \<not> truthy_int (arg_resume_from a)"
    by (auto simp: main_exit split: sum.splits option.splits)
  show "fst (main E a w) = 0 \<or> fst (main E a w) = 1 \<or> fst (main E a w) = 2"
    by (auto simp: main_exit split: sum.splits option.splits)
next
  assume h: "(truthy_str (arg_phase a) \<or> truthy_int (arg_resume_from a)) \<and> has_marker E \<and>
        can_mkdir E \<and>
        (\<exists>rs plan. load_progress (progress_file w) = Inr rs \<and> durations_recorded rs \<and>
                   phases_to_run E (selection a) = Inr plan) \<and>
        (\<forall>c. popen E c \<noteq> Interrupted)"
  then obtain rs plan where l: "load_progress (progress_file w) = Inr rs"
      and d: "durations_recorded rs" and p: "phases_to_run E (selection a) = Inr plan"
    by blast
  let ?orch = "\<lparr>project_root = resolve E (arg_project_root a), dry_run = arg_dry_run a,
                results = rs\<rparr>"
  from d have "durations_recorded (results ?orch)" by simp
  from run_phases_returns[OF this p, of w] h
  have "fst (run_phases E (selection a) ?orch w) = None" by blast
  with h l show "fst (main E a w) = 0" by (auto simp: main_exit)
next
  assume h: "(truthy_str (arg_phase a) \<or> truthy_int (arg_resume_from a)) \<and> has_marker E \<and>
        can_mkdir E \<and>
        (\<exists>rs p rest info. load_progress (progress_file w) = Inr rs \<and>
             phases_to_run E (selection a) = Inr (p # rest) \<and> map_of PHASES p = Some info \<and>
             \<not> already_completed p rs \<and> \<not> arg_dry_run a \<and>
             popen E (''claude /'' @ command info) = Interrupted)"
  then obtain rs p rest info where l: "load_progress (progress_file w) = Inr rs"
      and plan: "phases_to_run E (selection a) = Inr (p # rest)"
      and info: "map_of PHASES p = Some info" and todo: "\<not> already_completed p rs"
      and real: "\<not> arg_dry_run a"
      and int: "popen E (''claude /'' @ command info) = Interrupted"
    by blast
  let ?orch = "\<lparr>project_root = resolve E (arg_project_root a), dry_run = arg_dry_run a,
                results = rs\<rparr>"
  from loop_interrupted[OF info, of ?orch E rest w] todo real int
  have "fst (phase_loop E (p # rest) ?orch w) = Some KeyboardInterrupt" by simp
  with plan have "fst (run_phases E (selection a) ?orch w) = Some KeyboardInterrupt"
    by (simp add: run_phases_def case_prod_beta split: option.splits)
  with h l show "fst (main E a w) = 1" by (auto simp: main_exit)
next
  assume h: "(truthy_str (arg_phase a) \<or> truthy_int (arg_resume_from a)) \<and>
        (\<exists>e. phases_to_run E (selection a) = Inl e)"
  then obtain e where e: "phases_to_run E (selection a) = Inl e" by blast
  then have "\<And>orch. fst (run_phases E (selection a) orch w) = Some e"
    by (simp add: run_phases_def)
  with h show "fst (main E a w) = 1"
    by (auto simp: main_exit split: sum.splits)
qed

theorem exit_code_witness:
  "fst (main (demo_env launch_fails) (demo_args ''all'' False) fresh_world) = 0"
proof -
  have "phases_to_run (demo_env launch_fails) (selection (demo_args ''all'' False)) =
      Inr [1, 2, 3, 4, 5, 6, 7]"
    by (simp add: selection_def demo_args_def truthy_int_def plan_all)
  moreover have "load_progress (progress_file fresh_world) = Inr []"
    by (simp add: fresh_world_def load_progress_def)
  moreover have "durations_recorded []" by (simp add: durations_recorded_def)
  moreover have "\<forall>c. popen (demo_env launch_fails) c \<noteq> Interrupted"
    by (simp add: demo_env_def launch_fails_def)
  moreover have "truthy_str (arg_phase (demo_args ''all'' False))"
    by (simp add: truthy_str_def demo_args_def)
  moreover have "has_marker (demo_env launch_fails)" by (simp add: demo_env_def)
  moreover have "can_mkdir (demo_env launch_fails)" by (simp add: demo_env_def)
  ultimately show ?thesis
    using exit_code [of "demo_env launch_fails" "demo_args ''all'' False" fresh_world]
    by blast
qed

subsection \<open>Phases that are already completed\<close>

text \<open>
  Whatever the plan and however the loop ends, a phase that is already completed keeps
  its record, and its command is not among those launched.
\<close>

lemma command_inj:
  "map_of PHASES p = Some ip \<Longrightarrow> map_of PHASES q = Some iq \<Longrightarrow> command ip = command iq
     \<Longrightarrow> p = q"
  by (auto simp: PHASES_def split: if_splits)

lemma execute_phase_spawned:
  assumes "execute_phase E orch q w = (res, w')" and "map_of PHASES q = Some iq"
  shows "spawned (events w') = spawned (events w) \<or>
         spawned (events w') = spawned (events w) @ [''claude /'' @ command iq]"
  using assms
  by (auto simp: execute_phase_def now_def emit_def Let_def spawned_append
      split: if_splits proc_outcome.splits prod.splits)

lemma completed_record_is_kept:
  assumes run: "phase_loop E ps orch w = (x, orch', w')"
      and compl: "already_completed p (results orch)" and info: "map_of PHASES p = Some info"
  shows "existing p (results orch') = existing p (results orch)
       \<and> (\<exists>cs. spawned (events w') = spawned (events w) @ cs
                \<and> ''claude /'' @ command info \<notin> set cs)"
proof (rule phase_loop_invariant [OF run,
    where I = "\<lambda>s v. existing p (results s) = existing p (results orch)
       \<and> (\<exists>cs. spawned (events v) = spawned (events w) @ cs
                \<and> ''claude /'' @ command info \<notin> set cs)"])
  show "existing p (results orch) = existing p (results orch)
       \<and> (\<exists>cs. spawned (events w) = spawned (events w) @ cs
                \<and> ''claude /'' @ command info \<notin> set cs)"
    by simp
next
  fix q o1 w1 r w2
  assume inv: "existing p (results o1) = existing p (results orch)
       \<and> (\<exists>cs. spawned (events w1) = spawned (events w) @ cs
                \<and> ''claude /'' @ command info \<notin> set cs)"
     and known: "map_of PHASES q \<noteq> None"
     and todo: "\<not> already_completed q (results o1)"
     and ex: "execute_phase E o1 q w1 = (Inr r, w2)"
  let ?o2 = "o1\<lparr>results := update_results (existing q (results o1)) r (results o1)\<rparr>"
  from inv compl have "already_completed p (results o1)" by (simp add: already_completed_def)
  with todo have qp: "p \<noteq> q" by auto
  from known obtain iq where iq: "map_of PHASES q = Some iq" by auto
  from command_inj[OF info iq] qp have ne: "''claude /'' @ command iq \<noteq> ''claude /'' @ command info"
    by auto
  from inv obtain cs where cs: "spawned (events w1) = spawned (events w) @ cs"
      "''claude /'' @ command info \<notin> set cs"
    by blast
  from execute_phase_spawned[OF ex iq] cs ne
  have "\<exists>cs. spawned (events w2) = spawned (events w) @ cs \<and> ''claude /'' @ command info \<notin> set cs"
    by (elim disjE) (auto intro: exI[of _ "cs @ [''claude /'' @ command iq]"])
  moreover have "existing p (results ?o2) = existing p (results orch)"
    using existing_update_other[OF execute_phase_result(1)[OF ex] qp, of "results o1"] inv by simp
  ultimately show "existing p (results ?o2) = existing p (results orch)
       \<and> (\<exists>cs. spawned (events (save_progress E ?o2 w2)) = spawned (events w) @ cs
                \<and> ''claude /'' @ command info \<notin> set cs)"
    by (simp add: save_progress_events spawned_append)
next
  fix q o1 w1 e w2
  assume inv: "existing p (results o1) = existing p (results orch)
       \<and> (\<exists>cs. spawned (events w1) = spawned (events w) @ cs
                \<and> ''claude /'' @ command info \<notin> set cs)"
     and known: "map_of PHASES q \<noteq> None"
     and todo: "\<not> already_completed q (results o1)"
     and ex: "execute_phase E o1 q w1 = (Inl e, w2)"
  from inv compl have "already_completed p (results o1)" by (simp add: already_completed_def)
  with todo have qp: "p \<noteq> q" by auto
  from known obtain iq where iq: "map_of PHASES q = Some iq" by auto
  from command_inj[OF info iq] qp have ne: "''claude /'' @ command iq \<noteq> ''claude /'' @ command info"
    by auto
  from inv obtain cs where cs: "spawned (events w1) = spawned (events w) @ cs"
      "''claude /'' @ command info \<notin> set cs"
    by blast
  from execute_phase_spawned[OF ex iq] cs ne
  have "\<exists>cs. spawned (events w2) = spawned (events w) @ cs \<and> ''claude /'' @ command info \<notin> set cs"
    by (elim disjE) (auto intro: exI[of _ "cs @ [''claude /'' @ command iq]"])
  with inv show "existing p (results o1) = existing p (results orch)
       \<and> (\<exists>cs. spawned (events w2) = spawned (events w) @ cs
                \<and> ''claude /'' @ command info \<notin> set cs)"
    by simp
qed

text \<open>
  When the next planned phase has a completed record whose duration the float format
  takes, the iteration changes nothing: no command is launched, nothing is written, the
  results stay as they are, and the loop goes on with the rest of the plan.
\<close>

lemma completed_phase_is_skipped:
  assumes "map_of PHASES p = Some info" and "existing p (results orch) = Some e"
      and "status e = COMPLETED" and "format_2f (duration_seconds e) = None"
  shows "phase_loop E (p # rest) orch w = phase_loop E rest orch w"
  using assms by (rule loop_skip)

lemmas load_defs = progress_document_def results_of_json.simps result_of_json_def
  json_of_result_def bind_def subscript_def get_def lookup_member_def as_status_def
  PhaseStatus_of_value_def

text \<open>
  C6, at the input where the code departs from it. The progress file holds a completed
  record for phase 1 with no duration (the field is optional and \<open>load_progress\<close> reads
  a missing one as None). On the selection "1-2" the message that reports the skipped
  phase formats the duration with \<open>:.2f\<close> and raises TypeError: the process exits with
  code 1 and phase 2 is never launched, where the claim has the controller move on to
  the next planned phase.
\<close>

theorem completed_without_duration_stops_the_run:
  "fst (main (demo_env all_succeed) (demo_args ''1-2'' False)
          (world_with [stored_result 1 COMPLETED None])) = 1
   \<and> spawned (events (snd (main (demo_env all_succeed) (demo_args ''1-2'' False)
          (world_with [stored_result 1 COMPLETED None])))) = []
   \<and> phase_loop (demo_env all_succeed) [1, 2]
        (demo_orch False [stored_result 1 COMPLETED None]) fresh_world =
      (Some TypeError, demo_orch False [stored_result 1 COMPLETED None], fresh_world)"
  by (simp add: main_defs plan_1_2 eval_defs demo_defs run_defs load_defs)

subsection \<open>What a dry run does to the store\<close>

lemma filter_remove1_find: "find P xs = Some e \<Longrightarrow> filter P (remove1 e xs) = tl (filter P xs)"
proof (induction xs)
  case Nil
  then show ?case by simp
next
  case (Cons a xs)
  show ?case
  proof (cases "P a")
    case True
    with Cons.prems show ?thesis by simp
  next
    case False
    with Cons.prems have f: "find P xs = Some e" by simp
    then have "P e" by (auto simp: find_Some_iff)
    with False have "a \<noteq> e" by auto
    with False Cons.IH[OF f] show ?thesis by simp
  qed
qed

lemma filter_remove1_other: "\<not> P e \<Longrightarrow> filter P (remove1 e xs) = filter P xs"
  by (induction xs) auto

lemma find_filter: "find P xs = Some e \<Longrightarrow> filter P xs = e # tl (filter P xs)"
  by (induction xs) (auto split: if_splits)

lemma records_of_update_same:
  assumes "existing p rs = Some e" and "phase_number r = JInt p"
  shows "records_of p (update_results (Some e) r rs) = tl (records_of p rs) @ [r]"
  using assms
  by (simp add: records_of_def update_results_def existing_def filter_remove1_find)

lemma records_of_update_other:
  assumes "phase_number r = JInt q" and "p \<noteq> q"
  shows "records_of p (update_results (existing q rs) r rs) = records_of p rs"
proof (cases "existing q rs")
  case None
  with assms show ?thesis by (simp add: records_of_def update_results_def)
next
  case (Some e)
  from existing_in_set[OF Some] assms(2) have "\<not> eq_int (phase_number e) p"
    by (auto dest: eq_int_inj)
  with Some assms show ?thesis
    by (simp add: records_of_def update_results_def filter_remove1_other)
qed

text \<open>The loop leaves alone the records of a phase that is not in the plan.\<close>

lemma loop_frame:
  assumes run: "phase_loop E ps orch w = (x, orch', w')" and out: "p \<notin> set ps"
  shows "records_of p (results orch') = records_of p (results orch)"
proof (rule phase_loop_invariant [OF run,
    where I = "\<lambda>s v. records_of p (results s) = records_of p (results orch)"])
  show "records_of p (results orch) = records_of p (results orch)" by simp
next
  fix q o1 w1 r w2
  assume inv: "records_of p (results o1) = records_of p (results orch)"
     and q: "q \<in> set ps"
     and ex: "execute_phase E o1 q w1 = (Inr r, w2)"
  from q out have "p \<noteq> q" by auto
  from records_of_update_other[OF execute_phase_result(1)[OF ex] this, of "results o1"] inv
  show "records_of p
          (results (o1\<lparr>results := update_results (existing q (results o1)) r (results o1)\<rparr>)) =
        records_of p (results orch)"
    by simp
qed

text \<open>The progress file holds the results at every turn of the loop.\<close>

lemma loop_persists:
  assumes run: "phase_loop E ps orch w = (x, orch', w')"
      and init: "load_progress (progress_file w) = Inr (results orch)"
  shows "load_progress (progress_file w') = Inr (results orch')"
proof (rule phase_loop_invariant [OF run,
    where I = "\<lambda>s v. load_progress (progress_file v) = Inr (results s)"])
  show "load_progress (progress_file w) = Inr (results orch)" by fact
next
  fix q o1 w1 r w2
  show "load_progress
          (progress_file
             (save_progress E
                (o1\<lparr>results := update_results (existing q (results o1)) r (results o1)\<rparr>) w2)) =
        Inr (results (o1\<lparr>results := update_results (existing q (results o1)) r (results o1)\<rparr>))"
    by (simp add: save_progress_file load_progress_document)
next
  fix q o1 w1 e w2
  assume inv: "load_progress (progress_file w1) = Inr (results o1)"
     and ex: "execute_phase E o1 q w1 = (Inl e, w2)"
  from execute_phase_world(1)[OF ex] inv
  show "load_progress (progress_file w2) = Inr (results o1)" by simp
qed

lemma dry_loop_returns:
  assumes "phase_loop E ps orch w = (x, orch', w')" and "dry_run orch"
      and "durations_recorded (results orch)"
  shows "x = None"
proof (cases x)
  case (Some e)
  with phase_loop_raises[of E ps orch w e orch' w'] phase_loop_durations[OF assms(1,3)] assms
  show ?thesis by auto
qed simp

text \<open>
  In a dry run that comes to its end, a planned phase of the catalog whose record is not
  completed loses that record and gets a skipped one, last among the records of the phase.
\<close>

lemma dry_replaces:
  assumes "phase_loop E ps orch w = (None, orch', w')" and "dry_run orch"
      and "p \<in> set ps" and "distinct ps" and "map_of PHASES p = Some info"
      and "existing p (results orch) = Some e" and "status e \<noteq> COMPLETED"
  shows "records_of p (results orch') = tl (records_of p (results orch)) @ [dry_result p info]"
  using assms
proof (induction ps arbitrary: orch w)
  case Nil
  then show ?case by simp
next
  case (Cons q rest)
  note run = Cons.prems(1) and dry = Cons.prems(2) and info = Cons.prems(5)
    and ex = Cons.prems(6) and st = Cons.prems(7)
  from Cons.prems(4) have dist: "distinct rest" and qrest: "q \<notin> set rest" by simp_all
  from ex st have todo: "\<not> already_completed p (results orch)"
    by (simp add: already_completed_def)
  show ?case
  proof (cases "map_of PHASES q")
    case None
    with info have "q \<noteq> p" by auto
    with Cons.prems(3) have mem: "p \<in> set rest" by simp
    from run None have "phase_loop E rest orch w = (None, orch', w')"
      by (simp add: loop_unknown)
    from Cons.IH[OF this dry mem dist info ex st] show ?thesis .
  next
    case (Some iq)
    show ?thesis
    proof (cases "already_completed q (results orch)")
      case True
      with todo have "q \<noteq> p" by auto
      with Cons.prems(3) have mem: "p \<in> set rest" by simp
      from True obtain c where c: "existing q (results orch) = Some c" "status c = COMPLETED"
        by (auto simp: already_completed_def split: option.splits)
      show ?thesis
      proof (cases "format_2f (duration_seconds c)")
        case (Some y)
        from loop_skip_raises[OF \<open>map_of PHASES q = Some iq\<close> c this, of E rest w] run
        show ?thesis by simp
      next
        case None
        from loop_skip[OF Some c this, of E rest w] run
        have "phase_loop E rest orch w = (None, orch', w')" by simp
        from Cons.IH[OF this dry mem dist info ex st] show ?thesis .
      qed
    next
      case False
      let ?r = "dry_result q iq"
      let ?o1 = "orch\<lparr>results := update_results (existing q (results orch)) ?r (results orch)\<rparr>"
      have exq: "execute_phase E orch q w = (Inr ?r, w)"
        using execute_phase_dry[OF dry Some] .
      have stq: "status ?r \<noteq> FAILED" by (simp add: dry_result_def fresh_result_def)
      have pn: "phase_number ?r = JInt q" by (simp add: dry_result_def fresh_result_def)
      from run Some False exq stq
      have rest: "phase_loop E rest ?o1 (save_progress E ?o1 w) = (None, orch', w')"
        by (simp add: loop_run Let_def)
      have dry1: "dry_run ?o1" using dry by simp
      show ?thesis
      proof (cases "q = p")
        case True
        with Some info have iq: "iq = info" by simp
        from True qrest have "p \<notin> set rest" by simp
        from loop_frame[OF rest this]
        have "records_of p (results orch') = records_of p (results ?o1)" .
        also from records_of_update_same[OF ex, of ?r] pn True ex
        have "records_of p (results ?o1) = tl (records_of p (results orch)) @ [?r]" by simp
        finally show ?thesis using True iq by simp
      next
        case qp: False
        with Cons.prems(3) have mem: "p \<in> set rest" by simp
        from qp have pq: "p \<noteq> q" by simp
        from existing_update_other[OF pn pq, of "results orch"] ex
        have ex1: "existing p (results ?o1) = Some e" by simp
        from records_of_update_other[OF pn pq, of "results orch"]
        have same: "records_of p (results ?o1) = records_of p (results orch)" by simp
        from Cons.IH[OF rest dry1 mem dist info ex1 st] same show ?thesis by simp
      qed
    qed
  qed
qed

lemma plan_distinct: "phases_to_run E s = Inr plan \<Longrightarrow> distinct plan"
  by (auto simp: phases_to_run_def list_range_def Let_def keys_PHASES
      split: if_splits list.splits option.splits)

lemma main_world:
  "snd (main E a w) =
     (if \<not> truthy_str (arg_phase a) \<and> \<not> truthy_int (arg_resume_from a) then w
      else if \<not> has_marker E then w
      else if \<not> can_mkdir E then w
      else (case load_progress (progress_file w) of
              Inl x \<Rightarrow> w
            | Inr rs \<Rightarrow>
                (case run_phases E (selection a)
                        \<lparr>project_root = resolve E (arg_project_root a),
                         dry_run = arg_dry_run a, results = rs\<rparr> w of
                   (None, orch1, w1) \<Rightarrow> w1
                 | (Some KeyboardInterrupt, orch1, w1) \<Rightarrow>
                     snd (generate_report E orch1 (save_progress E orch1 w1))
                 | (Some x, orch1, w1) \<Rightarrow> save_progress E orch1 w1)))"
  unfolding main_def main_dispatch Let_def
  by (auto split: sum.splits prod.splits option.splits exn.splits)

text \<open>
  C10, as stated, fails: the store holds a failed record for the identifier 9, which is
  not in the catalog; a dry run over the plan "9" ends normally and the progress file
  still holds that record, unchanged.
\<close>

theorem dry_run_leaves_unknown_phase:
  "phases_to_run (demo_env all_succeed) ''9'' = Inr [9]
   \<and> fst (main (demo_env all_succeed) (demo_args ''9'' True)
            (world_with [stored_result 9 FAILED None])) = 0
   \<and> load_progress
        (progress_file (snd (main (demo_env all_succeed) (demo_args ''9'' True)
            (world_with [stored_result 9 FAILED None])))) =
      Inr [stored_result 9 FAILED None]"
  by (simp add: main_defs plan_9 eval_defs demo_defs run_defs load_defs)

text \<open>
  C10, amended. A dry run on a store whose completed records carry the duration of a run:
  the process exits with code 0, and for every planned phase that is in the catalog and
  whose record in the store (the first with its identifier) has a status other than
  completed, the progress file afterwards holds, under that identifier, the other records
  it held before, in order, and after them a skipped record for the phase; the record
  found is gone. The skipped record has no timestamps, no error message and no log path,
  so what the replaced record said about a failure is gone from the store.
\<close>

theorem dry_run_replaces_record:
  assumes usage: "truthy_str (arg_phase a) \<or> truthy_int (arg_resume_from a)"
      and marker: "has_marker E" and mkdir: "can_mkdir E" and dry: "arg_dry_run a"
      and load: "load_progress (progress_file w) = Inr rs" and dur: "durations_recorded rs"
      and plan: "phases_to_run E (selection a) = Inr plan"
      and mem: "p \<in> set plan" and info: "map_of PHASES p = Some info"
      and ex: "existing p rs = Some e" and st: "status e \<noteq> COMPLETED"
  shows "fst (main E a w) = 0
       \<and> (\<exists>rs' others.
             load_progress (progress_file (snd (main E a w))) = Inr rs'
           \<and> records_of p rs = e # others
           \<and> records_of p rs' = others @ [dry_result p info])
       \<and> status (dry_result p info) = SKIPPED
       \<and> start_time (dry_result p info) = JNull
       \<and> end_time (dry_result p info) = JNull
       \<and> error_message (dry_result p info) = JNull
       \<and> output_file (dry_result p info) = JNull"
proof -
  let ?orch = "\<lparr>project_root = resolve E (arg_project_root a), dry_run = arg_dry_run a,
                results = rs\<rparr>"
  obtain x o1 w1 where loop: "phase_loop E plan ?orch w = (x, o1, w1)"
    by (cases "phase_loop E plan ?orch w")
  have dry': "dry_run ?orch" using dry by simp
  have dur': "durations_recorded (results ?orch)" using dur by simp
  from dry_loop_returns[OF loop dry' dur'] have x: "x = None" .
  from phase_loop_durations[OF loop dur'] have "durations_recorded (results o1)" .
  from generate_report_ok[OF this, of E w1] have rep: "fst (generate_report E o1 w1) = None" .
  have run: "run_phases E (selection a) ?orch w = (None, o1, snd (generate_report E o1 w1))"
    using plan loop x rep by (simp add: run_phases_def case_prod_beta)
  have code: "fst (main E a w) = 0"
    using usage marker mkdir load run by (auto simp: main_exit)
  have world: "snd (main E a w) = snd (generate_report E o1 w1)"
    using usage marker mkdir load run by (auto simp: main_world)
  have "load_progress (progress_file w) = Inr (results ?orch)" using load by simp
  from loop_persists[OF loop this] generate_report_world(1)[of E o1 w1] world
  have kept: "load_progress (progress_file (snd (main E a w))) = Inr (results o1)" by simp
  have ex': "existing p (results ?orch) = Some e" using ex by simp
  from dry_replaces[OF loop[unfolded x] dry' mem plan_distinct[OF plan] info ex' st]
  have new: "records_of p (results o1) = tl (records_of p rs) @ [dry_result p info]" by simp
  from ex have old: "records_of p rs = e # tl (records_of p rs)"
    unfolding records_of_def existing_def by (rule find_filter)
  from kept old new have "\<exists>rs' others.
             load_progress (progress_file (snd (main E a w))) = Inr rs'
           \<and> records_of p rs = e # others
           \<and> records_of p rs' = others @ [dry_result p info]"
    by blast
  with code show ?thesis by (simp add: dry_result_def fresh_result_def)
qed

theorem dry_run_replaces_record_witness:
  "error_message (stored_result 1 FAILED None) = JStr ''Command exited with code 1''
   \<and> output_file (stored_result 1 FAILED None) = JStr ''/p/scripts/outputs/stored.log''
   \<and> fst (main (demo_env all_succeed) (demo_args ''1'' True)
            (world_with [stored_result 1 FAILED None])) = 0
   \<and> (\<exists>rs'. load_progress
               (progress_file (snd (main (demo_env all_succeed) (demo_args ''1'' True)
                  (world_with [stored_result 1 FAILED None])))) = Inr rs'
           \<and> records_of 1 rs' =
               [\<lparr>phase_number = JInt 1, phase_name = JStr ''Database Foundation'',
                 status = SKIPPED, start_time = JNull, end_time = JNull,
                 duration_seconds = JNull, error_message = JNull,
                 command_used = JStr ''/docjays-phase1'', output_file = JNull\<rparr>])"
proof -
  let ?E = "demo_env all_succeed"
  let ?a = "demo_args ''1'' True"
  let ?e = "stored_result 1 FAILED None"
  let ?w = "world_with [?e]"
  obtain info where info: "map_of PHASES 1 = Some info"
      and fields: "name info = ''Database Foundation''" "command info = ''docjays-phase1''"
    by (simp add: PHASES_def)
  have usage: "truthy_str (arg_phase ?a) \<or> truthy_int (arg_resume_from ?a)"
    by (simp add: truthy_str_def demo_args_def)
  have marker: "has_marker ?E" and mkdir: "can_mkdir ?E" by (simp_all add: demo_env_def)
  have dry: "arg_dry_run ?a" by (simp add: demo_args_def)
  have load: "load_progress (progress_file ?w) = Inr [?e]"
    by (simp add: world_with_def load_progress_document)
  have dur: "durations_recorded [?e]"
    by (simp add: durations_recorded_def stored_result_def)
  have plan: "phases_to_run ?E (selection ?a) = Inr [1]"
    by (simp add: selection_def demo_args_def truthy_int_def plan_1)
  have mem: "(1::int) \<in> set [1]" by simp
  have ex: "existing 1 [?e] = Some ?e" by (simp add: existing_def stored_result_def)
  have st: "status ?e \<noteq> COMPLETED" by (simp add: stored_result_def)
  have recs: "records_of 1 [?e] = [?e]" by (simp add: records_of_def stored_result_def)
  from dry_run_replaces_record [OF usage marker mkdir dry load dur plan mem info ex st]
  obtain rs' others where code: "fst (main ?E ?a ?w) = 0"
      and kept: "load_progress (progress_file (snd (main ?E ?a ?w))) = Inr rs'"
      and old: "records_of 1 [?e] = ?e # others"
      and new: "records_of 1 rs' = others @ [dry_result 1 info]"
    by blast
  from old recs have "others = []" by simp
  with new fields have "records_of 1 rs' =
               [\<lparr>phase_number = JInt 1, phase_name = JStr ''Database Foundation'',
                 status = SKIPPED, start_time = JNull, end_time = JNull,
                 duration_seconds = JNull, error_message = JNull,
                 command_used = JStr ''/docjays-phase1'', output_file = JNull\<rparr>]"
    by (simp add: dry_result_def fresh_result_def)
  with code kept show ?thesis by (auto simp: stored_result_def)
qed

subsection \<open>Dry runs\<close>

lemma saved_phase_effects: "\<forall>e \<in> set es. phase_effect e \<Longrightarrow> saved es = []"
  by (induction es rule: saved.induct) (simp_all add: phase_effect_def)

lemma generate_report_events:
  "\<exists>es. events (snd (generate_report E orch w)) = events w @ es
        \<and> (\<forall>e \<in> set es. \<not> phase_effect e) \<and> saved es = []"
  by (auto simp: generate_report_def now_def emit_def Let_def phase_effect_def
      split: option.splits)

text \<open>A dry run launches nothing and writes no log.\<close>

lemma dry_loop_events:
  assumes run: "phase_loop E ps orch w = (x, orch', w')" and dry: "dry_run orch"
  shows "\<exists>es. events w' = events w @ es \<and> (\<forall>e \<in> set es. \<not> phase_effect e)"
proof -
  have "dry_run orch' \<and> (\<exists>es. events w' = events w @ es \<and> (\<forall>e \<in> set es. \<not> phase_effect e))"
  proof (rule phase_loop_invariant [OF run,
      where I = "\<lambda>s v. dry_run s \<and> (\<exists>es. events v = events w @ es \<and> (\<forall>e \<in> set es. \<not> phase_effect e))"])
    show "dry_run orch \<and> (\<exists>es. events w = events w @ es \<and> (\<forall>e\<in>set es. \<not> phase_effect e))"
      using dry by simp
  next
    fix p o1 w1 r w2
    assume inv: "dry_run o1 \<and> (\<exists>es. events w1 = events w @ es \<and> (\<forall>e \<in> set es. \<not> phase_effect e))"
       and ex: "execute_phase E o1 p w1 = (Inr r, w2)"
    from execute_phase_world(2)[OF ex] inv have "events w2 = events w1" by auto
    with inv show "dry_run (o1\<lparr>results := update_results (existing p (results o1)) r (results o1)\<rparr>) \<and>
        (\<exists>es. events (save_progress E
                 (o1\<lparr>results := update_results (existing p (results o1)) r (results o1)\<rparr>) w2) =
              events w @ es \<and> (\<forall>e \<in> set es. \<not> phase_effect e))"
      by (auto simp: save_progress_events phase_effect_def)
  next
    fix p o1 w1 e w2
    assume inv: "dry_run o1 \<and> (\<exists>es. events w1 = events w @ es \<and> (\<forall>e \<in> set es. \<not> phase_effect e))"
       and ex: "execute_phase E o1 p w1 = (Inl e, w2)"
    from execute_phase_world(2)[OF ex] inv have "events w2 = events w1" by auto
    with inv show "dry_run o1 \<and> (\<exists>es. events w2 = events w @ es \<and> (\<forall>e \<in> set es. \<not> phase_effect e))"
      by simp
  qed
  then show ?thesis by simp
qed

lemma dry_result_stays:
  assumes run: "phase_loop E ps orch w = (x, orch', w')" and dry: "dry_run orch"
      and info: "map_of PHASES p = Some info" and mem: "dry_result p info \<in> set (results orch)"
  shows "dry_result p info \<in> set (results orch')"
proof -
  have "dry_run orch' \<and> dry_result p info \<in> set (results orch')"
  proof (rule phase_loop_invariant [OF run,
      where I = "\<lambda>s v. dry_run s \<and> dry_result p info \<in> set (results s)"])
    show "dry_run orch \<and> dry_result p info \<in> set (results orch)" using dry mem by simp
  next
    fix q o1 w1 r w2
    assume inv: "dry_run o1 \<and> dry_result p info \<in> set (results o1)"
       and known: "map_of PHASES q \<noteq> None"
       and ex: "execute_phase E o1 q w1 = (Inr r, w2)"
    from known obtain iq where iq: "map_of PHASES q = Some iq" by auto
    from execute_phase_dry[of o1 q iq E w1] inv iq ex have r: "r = dry_result q iq" by simp
    have "dry_result p info \<in> set (update_results (existing q (results o1)) r (results o1))"
    proof (cases "existing q (results o1)")
      case None
      with inv show ?thesis by (simp add: update_results_def)
    next
      case (Some e)
      show ?thesis
      proof (cases "e = dry_result p info")
        case True
        with existing_in_set[OF Some] have "q = p" by (simp add: dry_result_def fresh_result_def)
        with iq info r have "r = dry_result p info" by simp
        then show ?thesis by (simp add: update_results_def)
      next
        case False
        with inv Some show ?thesis by (simp add: update_results_def)
      qed
    qed
    with inv show "dry_run (o1\<lparr>results := update_results (existing q (results o1)) r (results o1)\<rparr>) \<and>
        dry_result p info \<in> set (results (o1\<lparr>results := update_results (existing q (results o1)) r (results o1)\<rparr>))"
      by simp
  qed simp
  then show ?thesis by simp
qed

lemma dry_marks:
  assumes "phase_loop E ps orch w = (None, orch', w')" and "dry_run orch"
      and "p \<in> set ps" and "map_of PHASES p = Some info"
      and "\<not> already_completed p (results orch)"
  shows "dry_result p info \<in> set (results orch')"
  using assms
proof (induction ps arbitrary: orch w)
  case Nil
  then show ?case by simp
next
  case (Cons q rest)
  note info = \<open>map_of PHASES p = Some info\<close>
  show ?case
  proof (cases "map_of PHASES q")
    case None
    with info have "q \<noteq> p" by auto
    with Cons None show ?thesis by (simp add: loop_unknown)
  next
    case (Some iq)
    show ?thesis
    proof (cases "already_completed q (results orch)")
      case True
      with Cons.prems(5) have qp: "q \<noteq> p" by auto
      from True obtain e where e: "existing q (results orch) = Some e" "status e = COMPLETED"
        by (auto simp: already_completed_def split: option.splits)
      show ?thesis
      proof (cases "format_2f (duration_seconds e)")
        case (Some y)
        from loop_skip_raises[OF \<open>map_of PHASES q = Some iq\<close> e this, of E rest w] Cons.prems(1)
        show ?thesis by simp
      next
        case None
        from loop_skip[OF Some e this, of E rest w] Cons.prems(1,3) qp
        have "phase_loop E rest orch w = (None, orch', w')" "p \<in> set rest"
          by simp_all
        from Cons.IH[OF this(1) Cons.prems(2) this(2) info Cons.prems(5)] show ?thesis .
      qed
    next
      case False
      let ?r = "dry_result q iq"
      let ?o1 = "orch\<lparr>results := update_results (existing q (results orch)) ?r (results orch)\<rparr>"
      have ex: "execute_phase E orch q w = (Inr ?r, w)"
        using execute_phase_dry[OF Cons.prems(2) Some] .
      have st: "status ?r \<noteq> FAILED" by (simp add: dry_result_def fresh_result_def)
      from Cons.prems(1) Some False ex st
      have rest: "phase_loop E rest ?o1 (save_progress E ?o1 w) = (None, orch', w')"
        by (simp add: loop_run Let_def)
      have dry1: "dry_run ?o1" using Cons.prems(2) by simp
      show ?thesis
      proof (cases "q = p")
        case True
        with Some info have "iq = info" by simp
        with True have "dry_result p info \<in> set (results ?o1)"
          by (simp add: update_results_new)
        from dry_result_stays[OF rest dry1 info this] show ?thesis .
      next
        case qp: False
        with Cons.prems(3) have mem: "p \<in> set rest" by simp
        have "phase_number ?r = JInt q" by (simp add: dry_result_def fresh_result_def)
        from existing_update_other[OF this, of p "results orch"] qp Cons.prems(5)
        have "\<not> already_completed p (results ?o1)"
          by (simp add: already_completed_def)
        from Cons.IH[OF rest dry1 mem info this] show ?thesis .
      qed
    qed
  qed
qed

lemma spawned_no_effects: "\<forall>e \<in> set es. \<not> phase_effect e \<Longrightarrow> spawned es = []"
  by (induction es rule: spawned.induct) (simp_all add: phase_effect_def)

text \<open>
  What a dry run and a real run record as the command of phase 1: the dry run leaves
  out the name of the program.
\<close>

lemma recorded_commands:
  "map_option command_used
     (case fst (execute_phase (demo_env all_succeed) (demo_orch True []) 1 fresh_world) of
        Inl x \<Rightarrow> None | Inr r \<Rightarrow> Some r) = Some (JStr ''/docjays-phase1'')"
  "map_option command_used
     (case fst (execute_phase (demo_env all_succeed) (demo_orch False []) 1 fresh_world) of
        Inl x \<Rightarrow> None | Inr r \<Rightarrow> Some r) = Some (JStr ''claude /docjays-phase1'')"
  by (simp_all add: demo_defs run_defs)

text \<open>
  C5, as stated, fails: a dry run over a plan that holds a phase already completed in
  the store leaves that phase completed; it is not marked skipped.
\<close>

theorem dry_run_keeps_completed_record:
  "map status
     (results (fst (snd (run_phases (demo_env all_succeed) ''1''
        (demo_orch True [stored_result 1 COMPLETED (Some 2)]) fresh_world)))) = [COMPLETED]"
  by (simp add: plan_1 eval_defs demo_defs run_defs)

text \<open>
  C5, amended. In dry-run mode, for any selection, the run launches no subprocess and
  writes no per-phase log file. When the selection gives a plan and every completed
  record of the store carries the duration of a run, the controller returns normally, and
  every planned phase that is in the catalog and not already completed in the store has
  a record with status skipped and no timestamps. A phase of the catalog that is already
  completed keeps its record.
\<close>

theorem dry_run_effects:
  assumes dry: "dry_run orch"
  shows "(\<exists>es. events (snd (snd (run_phases E sel orch w))) = events w @ es
              \<and> (\<forall>e \<in> set es. \<not> phase_effect e))
       \<and> (durations_recorded (results orch) \<and> phases_to_run E sel = Inr plan \<longrightarrow>
            fst (run_phases E sel orch w) = None
          \<and> (\<forall>p \<in> set plan. \<forall>info.
                map_of PHASES p = Some info \<and> \<not> already_completed p (results orch) \<longrightarrow>
                  (\<exists>r \<in> set (results (fst (snd (run_phases E sel orch w)))).
                      eq_int (phase_number r) p \<and> status r = SKIPPED
                    \<and> start_time r = JNull \<and> end_time r = JNull)))
       \<and> (\<forall>p info. map_of PHASES p = Some info \<and> already_completed p (results orch) \<longrightarrow>
            existing p (results (fst (snd (run_phases E sel orch w)))) =
              existing p (results orch))"
proof (cases "phases_to_run E sel")
  case (Inl e)
  then show ?thesis by (simp add: run_phases_def)
next
  case (Inr ps)
  obtain x orch' w' where loop: "phase_loop E ps orch w = (x, orch', w')"
    by (cases "phase_loop E ps orch w")
  from dry_loop_events[OF loop dry] obtain es where
    es: "events w' = events w @ es" "\<forall>e \<in> set es. \<not> phase_effect e"
    by blast
  from generate_report_events[of E orch' w'] obtain fs where
    fs: "events (snd (generate_report E orch' w')) = events w' @ fs"
        "\<forall>e \<in> set fs. \<not> phase_effect e"
    by blast
  have run: "run_phases E sel orch w =
      (case x of Some e \<Rightarrow> (Some e, orch', w')
       | None \<Rightarrow> (fst (generate_report E orch' w'), orch', snd (generate_report E orch' w')))"
    using Inr loop by (simp add: run_phases_def case_prod_beta split: option.splits)
  have first: "\<exists>es. events (snd (snd (run_phases E sel orch w))) = events w @ es
              \<and> (\<forall>e \<in> set es. \<not> phase_effect e)"
  proof (cases x)
    case None
    with run es fs show ?thesis
      by (intro exI[of _ "es @ fs"]) auto
  next
    case (Some e)
    with run es show ?thesis by (intro exI[of _ es]) simp
  qed
  have second: "fst (run_phases E sel orch w) = None
          \<and> (\<forall>p \<in> set plan. \<forall>info.
                map_of PHASES p = Some info \<and> \<not> already_completed p (results orch) \<longrightarrow>
                  (\<exists>r \<in> set (results (fst (snd (run_phases E sel orch w)))).
                      eq_int (phase_number r) p \<and> status r = SKIPPED
                    \<and> start_time r = JNull \<and> end_time r = JNull))"
    if d: "durations_recorded (results orch)" and plan: "phases_to_run E sel = Inr plan"
  proof -
    from plan Inr have ps: "ps = plan" by simp
    from dry_loop_returns[OF loop dry d] have x: "x = None" .
    from phase_loop_durations[OF loop d] have "durations_recorded (results orch')" .
    from generate_report_ok[OF this, of E w'] have rep: "fst (generate_report E orch' w') = None" .
    from run x rep have r1: "fst (run_phases E sel orch w) = None"
      and r2: "fst (snd (run_phases E sel orch w)) = orch'"
      by simp_all
    have "\<exists>r \<in> set (results orch').
            eq_int (phase_number r) p \<and> status r = SKIPPED
          \<and> start_time r = JNull \<and> end_time r = JNull"
      if "p \<in> set plan" "map_of PHASES p = Some info" "\<not> already_completed p (results orch)"
      for p info
    proof -
      from dry_marks[of E ps orch w orch' w' p info] loop x dry that ps
      have "dry_result p info \<in> set (results orch')" by simp
      then show ?thesis
        by (rule rev_bexI) (simp add: dry_result_def fresh_result_def)
    qed
    with r1 r2 show ?thesis by simp
  qed
  have third: "existing p (results (fst (snd (run_phases E sel orch w)))) =
      existing p (results orch)"
    if "map_of PHASES p = Some info" "already_completed p (results orch)" for p info
  proof -
    have "fst (snd (run_phases E sel orch w)) = orch'"
      using run by (simp split: option.splits)
    with completed_record_is_kept[OF loop that(2,1)] show ?thesis by simp
  qed
  from first second third show ?thesis by blast
qed

theorem dry_run_effects_witness:
  "spawned (events (snd (snd (run_phases (demo_env all_succeed) ''1-2''
      (demo_orch True [stored_result 1 COMPLETED (Some 2)]) fresh_world)))) = []
   \<and> fst (run_phases (demo_env all_succeed) ''1-2''
        (demo_orch True [stored_result 1 COMPLETED (Some 2)]) fresh_world) = None
   \<and> (\<exists>r \<in> set (results (fst (snd (run_phases (demo_env all_succeed) ''1-2''
            (demo_orch True [stored_result 1 COMPLETED (Some 2)]) fresh_world)))).
        phase_number r = JInt 2 \<and> status r = SKIPPED
      \<and> start_time r = JNull \<and> end_time r = JNull)"
proof -
  let ?E = "demo_env all_succeed"
  let ?orch = "demo_orch True [stored_result 1 COMPLETED (Some 2)]"
  obtain info where info: "map_of PHASES 2 = Some info"
    by (simp add: PHASES_def)
  have dry: "dry_run ?orch" by (simp add: demo_orch_def)
  have d: "durations_recorded (results ?orch)"
    by (simp add: durations_recorded_def is_float_def demo_defs)
  have todo: "\<not> already_completed 2 (results ?orch)"
    by (simp add: already_completed_def existing_def demo_defs)
  from dry_run_effects [OF dry, of ?E "''1-2''" fresh_world "[1, 2]"] d plan_1_2[of ?E]
  obtain es where es: "events (snd (snd (run_phases ?E ''1-2'' ?orch fresh_world))) =
        events fresh_world @ es" "\<forall>e \<in> set es. \<not> phase_effect e"
    and ret: "fst (run_phases ?E ''1-2'' ?orch fresh_world) = None"
    and marks: "\<forall>p \<in> set [1, 2]. \<forall>info.
                map_of PHASES p = Some info \<and> \<not> already_completed p (results ?orch) \<longrightarrow>
                  (\<exists>r \<in> set (results (fst (snd (run_phases ?E ''1-2'' ?orch fresh_world)))).
                      eq_int (phase_number r) p \<and> status r = SKIPPED
                    \<and> start_time r = JNull \<and> end_time r = JNull)"
    by blast
  from marks info todo
  obtain r where r: "r \<in> set (results (fst (snd (run_phases ?E ''1-2'' ?orch fresh_world))))"
      "eq_int (phase_number r) 2" "status r = SKIPPED" "start_time r = JNull" "end_time r = JNull"
    by auto
  have run: "map phase_number (results (fst (snd (run_phases ?E ''1-2'' ?orch fresh_world)))) =
      [JInt 1, JInt 2]"
    by (simp add: plan_1_2 eval_defs demo_defs run_defs)
  from r(1) have "phase_number r \<in> set (map phase_number
      (results (fst (snd (run_phases ?E ''1-2'' ?orch fresh_world)))))"
    by simp
  with run r(2) have "phase_number r = JInt 2" by auto
  with r es ret spawned_no_effects[OF es(2)] show ?thesis
    by (auto simp: fresh_world_def)
qed

subsection \<open>Statuses that reach the progress file\<close>

lemma loop_saves:
  assumes run: "phase_loop E ps orch w = (x, orch', w')"
      and clean: "IN_PROGRESS \<notin> status ` set (results orch)"
  shows "IN_PROGRESS \<notin> status ` set (results orch') \<and>
         (\<exists>ds. saved (events w') = saved (events w) @ ds \<and>
               (\<forall>d \<in> set ds. \<exists>t rs. d = progress_document t rs \<and> IN_PROGRESS \<notin> status ` set rs))"
proof (rule phase_loop_invariant [OF run,
    where I = "\<lambda>s v. IN_PROGRESS \<notin> status ` set (results s) \<and>
         (\<exists>ds. saved (events v) = saved (events w) @ ds \<and>
               (\<forall>d \<in> set ds. \<exists>t rs. d = progress_document t rs \<and> IN_PROGRESS \<notin> status ` set rs))"])
  show "IN_PROGRESS \<notin> status ` set (results orch) \<and>
         (\<exists>ds. saved (events w) = saved (events w) @ ds \<and>
               (\<forall>d \<in> set ds. \<exists>t rs. d = progress_document t rs \<and> IN_PROGRESS \<notin> status ` set rs))"
    using clean by simp
next
  fix p o1 w1 r w2
  assume inv: "IN_PROGRESS \<notin> status ` set (results o1) \<and>
         (\<exists>ds. saved (events w1) = saved (events w) @ ds \<and>
               (\<forall>d \<in> set ds. \<exists>t rs. d = progress_document t rs \<and> IN_PROGRESS \<notin> status ` set rs))"
     and ex: "execute_phase E o1 p w1 = (Inr r, w2)"
  let ?rs = "update_results (existing p (results o1)) r (results o1)"
  from inv obtain ds where ds: "saved (events w1) = saved (events w) @ ds"
      "\<forall>d \<in> set ds. \<exists>t rs. d = progress_document t rs \<and> IN_PROGRESS \<notin> status ` set rs"
    by blast
  from execute_phase_world(2)[OF ex] have same: "saved (events w2) = saved (events w1)"
    by (auto simp: saved_append saved_phase_effects)
  from execute_phase_result(2)[OF ex] have "status r \<noteq> IN_PROGRESS" by auto
  with inv update_results_subset[of "existing p (results o1)" r "results o1"]
  have c: "IN_PROGRESS \<notin> status ` set ?rs" by auto
  have "saved (events (save_progress E (o1\<lparr>results := ?rs\<rparr>) w2)) =
          saved (events w) @ (ds @ [progress_document (isoformat E (clock E (ticks w2))) ?rs])"
    by (simp add: save_progress_events saved_append same ds(1))
  moreover have "\<forall>d \<in> set (ds @ [progress_document (isoformat E (clock E (ticks w2))) ?rs]).
      \<exists>t rs. d = progress_document t rs \<and> IN_PROGRESS \<notin> status ` set rs"
    using ds(2) c by auto
  ultimately show "IN_PROGRESS \<notin> status ` set (results (o1\<lparr>results := ?rs\<rparr>)) \<and>
         (\<exists>ds. saved (events (save_progress E (o1\<lparr>results := ?rs\<rparr>) w2)) = saved (events w) @ ds \<and>
               (\<forall>d \<in> set ds. \<exists>t rs. d = progress_document t rs \<and> IN_PROGRESS \<notin> status ` set rs))"
    using c by (simp del: set_append)
next
  fix p o1 w1 e w2
  assume inv: "IN_PROGRESS \<notin> status ` set (results o1) \<and>
         (\<exists>ds. saved (events w1) = saved (events w) @ ds \<and>
               (\<forall>d \<in> set ds. \<exists>t rs. d = progress_document t rs \<and> IN_PROGRESS \<notin> status ` set rs))"
     and ex: "execute_phase E o1 p w1 = (Inl e, w2)"
  from execute_phase_world(2)[OF ex] have "saved (events w2) = saved (events w1)"
    by (auto simp: saved_append saved_phase_effects)
  with inv show "IN_PROGRESS \<notin> status ` set (results o1) \<and>
         (\<exists>ds. saved (events w2) = saved (events w) @ ds \<and>
               (\<forall>d \<in> set ds. \<exists>t rs. d = progress_document t rs \<and> IN_PROGRESS \<notin> status ` set rs))"
    by simp
qed

lemma run_saves:
  assumes clean: "IN_PROGRESS \<notin> status ` set (results orch)"
  shows "IN_PROGRESS \<notin> status ` set (results (fst (snd (run_phases E sel orch w)))) \<and>
         (\<exists>ds. saved (events (snd (snd (run_phases E sel orch w)))) = saved (events w) @ ds \<and>
               (\<forall>d \<in> set ds. \<exists>t rs. d = progress_document t rs \<and> IN_PROGRESS \<notin> status ` set rs))"
proof (cases "phases_to_run E sel")
  case (Inl e)
  with clean show ?thesis by (simp add: run_phases_def)
next
  case (Inr ps)
  obtain x orch' w' where loop: "phase_loop E ps orch w = (x, orch', w')"
    by (cases "phase_loop E ps orch w")
  from generate_report_events[of E orch' w']
  have rep: "saved (events (snd (generate_report E orch' w'))) = saved (events w')"
    by (auto simp: saved_append)
  have "fst (snd (run_phases E sel orch w)) = orch'"
    and "saved (events (snd (snd (run_phases E sel orch w)))) = saved (events w')"
    using Inr loop rep by (auto simp: run_phases_def case_prod_beta split: option.splits)
  with loop_saves[OF loop clean] show ?thesis by simp
qed

text \<open>
  C9, as stated, fails: the progress file holds a record with status in_progress for
  phase 1 (\<open>load_progress\<close> accepts every value of the enum); a run of phase 2 saves the
  collection with that record in it.
\<close>

theorem loaded_in_progress_is_saved_again:
  "map statuses_in
     (saved (events (snd (main (demo_env all_succeed) (demo_args ''2'' False)
        (world_with [stored_result 1 IN_PROGRESS None]))))) = [ [IN_PROGRESS, COMPLETED] ]"
  by (simp add: main_defs plan_2 eval_defs demo_defs run_defs statuses_in_def load_defs)

text \<open>
  C9, amended. Every result that \<open>execute_phase\<close> returns has status completed, failed or
  skipped. When the collection loaded at the start holds no in_progress record, every
  collection written to the progress file during the run, whatever its outcome, holds
  none either.
\<close>

theorem saves_hold_no_in_progress:
  "(fst (execute_phase E orch n w) = Inr r \<longrightarrow>
      status r = COMPLETED \<or> status r = FAILED \<or> status r = SKIPPED)
   \<and> (load_progress (progress_file w) = Inr rs \<and> IN_PROGRESS \<notin> status ` set rs \<longrightarrow>
        (\<exists>ds. saved (events (snd (main E a w))) = saved (events w) @ ds \<and>
              (\<forall>d \<in> set ds. \<exists>t rs'. d = progress_document t rs' \<and>
                                     IN_PROGRESS \<notin> status ` set rs')))"
proof (intro conjI impI)
  assume "fst (execute_phase E orch n w) = Inr r"
  then have "execute_phase E orch n w = (Inr r, snd (execute_phase E orch n w))"
    by (cases "execute_phase E orch n w") simp
  from execute_phase_result(2)[OF this]
  show "status r = COMPLETED \<or> status r = FAILED \<or> status r = SKIPPED" .
next
  assume h: "load_progress (progress_file w) = Inr rs \<and> IN_PROGRESS \<notin> status ` set rs"
  let ?orch = "\<lparr>project_root = resolve E (arg_project_root a), dry_run = arg_dry_run a,
                results = rs\<rparr>"
  obtain x orch1 w1 where run: "run_phases E (selection a) ?orch w = (x, orch1, w1)"
    by (cases "run_phases E (selection a) ?orch w")
  from h have "IN_PROGRESS \<notin> status ` set (results ?orch)" by simp
  from run_saves[OF this, of E "selection a" w] run
  obtain ds where c1: "IN_PROGRESS \<notin> status ` set (results orch1)"
      and ds: "saved (events w1) = saved (events w) @ ds"
              "\<forall>d \<in> set ds. \<exists>t rs'. d = progress_document t rs' \<and> IN_PROGRESS \<notin> status ` set rs'"
    by auto
  let ?doc = "progress_document (isoformat E (clock E (ticks w1))) (results orch1)"
  have s1: "saved (events (save_progress E orch1 w1)) = saved (events w) @ (ds @ [?doc])"
    by (simp add: save_progress_events saved_append ds(1))
  from generate_report_events[of E orch1 "save_progress E orch1 w1"]
  have s2: "saved (events (snd (generate_report E orch1 (save_progress E orch1 w1)))) =
      saved (events w) @ (ds @ [?doc])"
    by (auto simp: saved_append s1)
  have c2: "\<forall>d \<in> set (ds @ [?doc]). \<exists>t rs'. d = progress_document t rs' \<and>
      IN_PROGRESS \<notin> status ` set rs'"
    using ds(2) c1 by auto
  have nil: "saved (events w) = saved (events w) @ []" by simp
  from h have l: "load_progress (progress_file w) = Inr rs" by simp
  have "snd (main E a w) = w \<or> snd (main E a w) = w1
      \<or> snd (main E a w) = save_progress E orch1 w1
      \<or> snd (main E a w) = snd (generate_report E orch1 (save_progress E orch1 w1))"
  proof (cases x)
    case None
    with l run show ?thesis by (simp add: main_world)
  next
    case (Some e)
    with l run show ?thesis by (cases e) (simp_all add: main_world)
  qed
  then consider "snd (main E a w) = w" | "snd (main E a w) = w1"
    | "snd (main E a w) = save_progress E orch1 w1"
    | "snd (main E a w) = snd (generate_report E orch1 (save_progress E orch1 w1))"
    by blast
  then show "\<exists>ds. saved (events (snd (main E a w))) = saved (events w) @ ds \<and>
              (\<forall>d \<in> set ds. \<exists>t rs'. d = progress_document t rs' \<and>
                                     IN_PROGRESS \<notin> status ` set rs')"
  proof cases
    case 1
    then show ?thesis by (intro exI[of _ "[]"]) simp
  next
    case 2
    with ds show ?thesis by (intro exI[of _ ds]) simp
  next
    case 3
    with s1 c2 show ?thesis by (intro exI[of _ "ds @ [?doc]"]) (simp del: set_append)
  next
    case 4
    with s2 c2 show ?thesis by (intro exI[of _ "ds @ [?doc]"]) (simp del: set_append)
  qed
qed

theorem saves_hold_no_in_progress_witness:
  "fst (execute_phase (demo_env launch_fails) (demo_orch True []) 2 fresh_world) =
     Inr \<lparr>phase_number = JInt 2, phase_name = JStr ''Lifecycle Management APIs'',
          status = SKIPPED, start_time = JNull, end_time = JNull, duration_seconds = JNull,
          error_message = JNull, command_used = JStr ''/docjays-phase2'', output_file = JNull\<rparr>
   \<and> length (saved (events (snd (main (demo_env launch_fails) (demo_args ''1'' False)
        fresh_world)))) = 1
   \<and> IN_PROGRESS \<notin> set (concat (map statuses_in
        (saved (events (snd (main (demo_env launch_fails) (demo_args ''1'' False)
           fresh_world))))))"
proof -
  let ?E = "demo_env launch_fails"
  let ?R = "\<lparr>phase_number = JInt 2, phase_name = JStr ''Lifecycle Management APIs'',
          status = SKIPPED, start_time = JNull, end_time = JNull, duration_seconds = JNull,
          error_message = JNull, command_used = JStr ''/docjays-phase2'', output_file = JNull\<rparr>"
  let ?w' = "snd (main ?E (demo_args ''1'' False) fresh_world)"
  have e: "fst (execute_phase ?E (demo_orch True []) 2 fresh_world) = Inr ?R"
    by (simp add: demo_defs run_defs)
  have l: "load_progress (progress_file fresh_world) = Inr [] \<and>
           IN_PROGRESS \<notin> status ` set ([] :: PhaseResult list)"
    by (simp add: fresh_world_def load_progress_def)
  note T = saves_hold_no_in_progress
         [of ?E "demo_orch True []" 2 fresh_world ?R "[]" "demo_args ''1'' False"]
  from T e have st: "status ?R = COMPLETED \<or> status ?R = FAILED \<or> status ?R = SKIPPED"
    by blast
  from T l obtain ds where ds: "saved (events ?w') = saved (events fresh_world) @ ds"
      "\<forall>d \<in> set ds. \<exists>t rs'. d = progress_document t rs' \<and> IN_PROGRESS \<notin> status ` set rs'"
    by blast
  have "length (saved (events ?w')) = 1"
    by (simp add: main_defs plan_1 eval_defs demo_defs run_defs)
  moreover from ds have "IN_PROGRESS \<notin> set (concat (map statuses_in (saved (events ?w'))))"
    by (auto simp: fresh_world_def statuses_in_document)
  ultimately show ?thesis using e st by simp
qed

end
